theory Spec2Isabelle
  imports Complex_Main "HOL-Library.Multiset" "HOL-Library.Monad_Syntax"
begin

section \<open>Data model\<close>

text \<open>
  At run time an enrollment status is a JavaScript string; the type \<open>EnrollmentStatus\<close>
  of the source only names six of them. The model keeps the string, so that membership
  in the six-value set is a property to be proved and not a consequence of a type.
\<close>

type_synonym EnrollmentStatus = string

definition enrollment_statuses :: "EnrollmentStatus set" where
  "enrollment_statuses =
     {''enrolled'', ''uploaded'', ''processing'', ''under-review'', ''approved'', ''rejected''}"

text \<open>
  A JavaScript \<open>Date\<close> holds a time value: a whole number of milliseconds since the
  epoch, or NaN (an invalid date).
\<close>

datatype Date = ValidDate (time_value: int) | InvalidDate

text \<open>
  Modelled from the spec: the declaration of \<open>Campaign\<close> (\<open>../types\<close>) is not among
  the sources; the spec lists its fields as id, merchant, discount and reward terms.
  The code under study reads \<open>campaign.id\<close> and \<open>campaign.merchant\<close> only.
\<close>

record Campaign =
  campaign_id :: string
  merchant :: string
  discount :: string
  reward :: string

text \<open>The \<open>name\<close> and \<open>size\<close> that \<open>uploadFile\<close> copies from a browser \<open>File\<close>.\<close>

record FileInfo =
  file_name :: string
  file_size :: int

record Stats =
  stats_clicks :: int
  stats_orders :: int
  stats_earnings :: int

text \<open>
  Modelled from the spec: the declaration of \<open>Enrollment\<close> (\<open>../types\<close>) is not among
  the sources. The fields are the ones the hook reads and writes; a field that may be
  absent (\<open>undefined\<close>) is an \<open>option\<close>.
\<close>

record Enrollment =
  enrollment_id :: string
  campaign :: Campaign
  status :: EnrollmentStatus
  enrolledAt :: Date
  uploadedFile :: "FileInfo option"
  referralUrl :: "string option"
  clicks :: "int option"
  orders :: "int option"
  earnings :: "int option"
  stats :: "Stats option"
  rejectionReason :: "string option"

section \<open>The platform: clock, random source, number formatting\<close>

text \<open>
  \<open>Math.random()\<close> and \<open>Date.now()\<close> read the outside world. The world is a stream of
  the random draws still to come and a stream of the clock readings still to come; a
  read returns the head and leaves the tail.
\<close>

record world =
  draws :: "nat \<Rightarrow> real"
  ticks :: "nat \<Rightarrow> int"

definition Math_random :: "world \<Rightarrow> real \<times> world" where
  "Math_random w = (draws w 0, w\<lparr>draws := (\<lambda>n. draws w (Suc n))\<rparr>)"

definition Date_now :: "world \<Rightarrow> int \<times> world" where
  "Date_now w = (ticks w 0, w\<lparr>ticks := (\<lambda>n. ticks w (Suc n))\<rparr>)"

text \<open>\<open>Math.random()\<close> returns a number in \<open>[0, 1)\<close>.\<close>

definition unit_draws :: "world \<Rightarrow> bool" where
  "unit_draws w \<longleftrightarrow> (\<forall>n. 0 \<le> draws w n \<and> draws w n < 1)"

text \<open>The decimal digits of a number, as a template literal prints an integer.\<close>

definition digit_char :: "nat \<Rightarrow> char" where
  "digit_char d = char_of (48 + d)"

fun digits_of :: "nat \<Rightarrow> string" where
  "digits_of n = (if n < 10 then [digit_char n] else digits_of (n div 10) @ [digit_char (n mod 10)])"

declare digits_of.simps [simp del]

definition show_int :: "int \<Rightarrow> string" where
  "show_int i = (if i < 0 then CHR ''-'' # digits_of (nat (- i)) else digits_of (nat i))"

text \<open>
  \<open>prev.map(f)\<close> where \<open>f\<close> reads the world: the elements are visited from left to
  right and each visit sees the world the previous one left.
\<close>

primrec map_world :: "(world \<Rightarrow> 'a \<Rightarrow> 'b \<times> world) \<Rightarrow> world \<Rightarrow> 'a list \<Rightarrow> 'b list \<times> world" where
  "map_world f w [] = ([], w)"
| "map_world f w (x # xs) =
     (let (y, w1) = f w x; (ys, w2) = map_world f w1 xs in (y # ys, w2))"

section \<open>The state helpers of \<open>../utils\<close>\<close>

text \<open>
  Modelled from the spec: \<open>isTerminalState\<close> is imported from \<open>../utils\<close>, which is not
  among the sources. The spec: "approved and rejected are terminal".
\<close>

definition isTerminalState :: "EnrollmentStatus \<Rightarrow> bool" where
  "isTerminalState s \<longleftrightarrow> s = ''approved'' \<or> s = ''rejected''"

text \<open>
  Modelled from the spec: \<open>nextEnrollmentState\<close> is imported from \<open>../utils\<close>, which is
  not among the sources. The spec gives the chain
  enrolled \<rightarrow> uploaded \<rightarrow> processing \<rightarrow> under-review \<rightarrow> approved;
  a status with no successor gives \<open>null\<close> (\<open>None\<close>), which the caller tests for.
\<close>

definition nextEnrollmentState :: "EnrollmentStatus \<Rightarrow> EnrollmentStatus option" where
  "nextEnrollmentState s =
     (if s = ''enrolled'' then Some ''uploaded''
      else if s = ''uploaded'' then Some ''processing''
      else if s = ''processing'' then Some ''under-review''
      else if s = ''under-review'' then Some ''approved''
      else None)"

section \<open>The enrollment operations of \<open>useCollaborators\<close>\<close>

text \<open>
  Each operation hands \<open>setEnrollments\<close> an updater from the previous list to the next
  one; the definitions below are these updaters. Where an updater reads the clock or
  the random source it takes the world and returns what is left of it.
\<close>

text \<open>
  The new record is built when the action is taken: \<open>Date.now()\<close> for the id, then
  \<open>new Date()\<close>, which holds the current time and so is a valid date.
\<close>

definition enrollInCampaign :: "world \<Rightarrow> Campaign \<Rightarrow> Enrollment list \<Rightarrow> Enrollment list \<times> world" where
  "enrollInCampaign w c prev =
     (let (now, w1) = Date_now w;
          (today, w2) = Date_now w1;
          newEnrollment = \<lparr> enrollment_id = ''enrollment-'' @ show_int now,
                            campaign = c,
                            status = ''enrolled'',
                            enrolledAt = ValidDate today,
                            uploadedFile = None,
                            referralUrl = None,
                            clicks = Some 0,
                            orders = Some 0,
                            earnings = Some 0,
                            stats = None,
                            rejectionReason = None \<rparr>
      in (prev @ [newEnrollment], w2))"

definition uploadFile :: "string \<Rightarrow> FileInfo \<Rightarrow> Enrollment list \<Rightarrow> Enrollment list" where
  "uploadFile enrollmentId file prev =
     map (\<lambda>e. if enrollment_id e = enrollmentId
               then e\<lparr>uploadedFile := Some \<lparr>file_name = file_name file, file_size = file_size file\<rparr>,
                      status := ''uploaded''\<rparr>
               else e) prev"

definition submitForReview :: "string \<Rightarrow> Enrollment list \<Rightarrow> Enrollment list" where
  "submitForReview enrollmentId prev =
     map (\<lambda>e. if enrollment_id e = enrollmentId then e\<lparr>status := ''processing''\<rparr> else e) prev"

text \<open>The callback \<open>submitForReview\<close> schedules for 4000 ms later.\<close>

definition submitForReview_after_4s :: "string \<Rightarrow> Enrollment list \<Rightarrow> Enrollment list" where
  "submitForReview_after_4s enrollmentId prev =
     map (\<lambda>e. if enrollment_id e = enrollmentId \<and> status e = ''processing''
               then e\<lparr>status := ''under-review''\<rparr>
               else e) prev"

text \<open>
  The approval record: the three counters are drawn in the order clicks, orders,
  earnings, then the clock is read for the referral URL.
\<close>

definition approve :: "int \<Rightarrow> int \<Rightarrow> int \<Rightarrow> world \<Rightarrow> Enrollment \<Rightarrow> Enrollment \<times> world" where
  "approve kc ko ke w e =
     (let (r1, w1) = Math_random w;
          nclicks = \<lfloor>r1 * of_int kc\<rfloor> + 100;
          (r2, w2) = Math_random w1;
          norders = \<lfloor>r2 * of_int ko\<rfloor> + 10;
          (r3, w3) = Math_random w2;
          nearnings = \<lfloor>r3 * of_int ke\<rfloor> + 50;
          (now, w4) = Date_now w3
      in (e\<lparr>status := ''approved'',
            referralUrl := Some (''https://snoonu.com/ref/'' @ campaign_id (campaign e)
                                 @ ''?c='' @ show_int now),
            clicks := Some nclicks,
            orders := Some norders,
            earnings := Some nearnings,
            stats := Some \<lparr>stats_clicks = nclicks, stats_orders = norders,
                           stats_earnings = nearnings\<rparr>\<rparr>, w4))"

text \<open>The callback \<open>submitForReview\<close> schedules for 8000 ms later.\<close>

definition submitForReview_after_8s :: "world \<Rightarrow> string \<Rightarrow> Enrollment list \<Rightarrow> Enrollment list \<times> world" where
  "submitForReview_after_8s w enrollmentId prev =
     map_world (\<lambda>w e. if enrollment_id e \<noteq> enrollmentId \<or> status e \<noteq> ''under-review''
                       then (e, w)
                       else approve 400 40 150 w e) w prev"

definition advanceEnrollment :: "world \<Rightarrow> string \<Rightarrow> Enrollment list \<Rightarrow> Enrollment list \<times> world" where
  "advanceEnrollment w enrollmentId prev =
     map_world (\<lambda>w e.
        if enrollment_id e \<noteq> enrollmentId \<or> isTerminalState (status e) then (e, w)
        else case nextEnrollmentState (status e) of
               None \<Rightarrow> (e, w)
             | Some nextStatus \<Rightarrow>
                 if nextStatus = [] then (e, w)
                 else let updated = e\<lparr>status := nextStatus\<rparr>
                      in if nextStatus = ''approved'' then approve 400 40 150 w updated
                         else (updated, w)) w prev"

definition advanceToApproved :: "world \<Rightarrow> string \<Rightarrow> Enrollment list \<Rightarrow> Enrollment list \<times> world" where
  "advanceToApproved w enrollmentId prev =
     map_world (\<lambda>w e. if enrollment_id e \<noteq> enrollmentId then (e, w)
                       else approve 500 50 200 w e) w prev"

definition rejection_text :: string where
  "rejection_text = ''Video did not meet the campaign guidelines. Please ensure you mention the discount code clearly.''"

definition rejectEnrollment :: "string \<Rightarrow> Enrollment list \<Rightarrow> Enrollment list" where
  "rejectEnrollment enrollmentId prev =
     map (\<lambda>e. if enrollment_id e = enrollmentId
               then e\<lparr>status := ''rejected'', rejectionReason := Some rejection_text\<rparr>
               else e) prev"

section \<open>Sequences of operations\<close>

text \<open>
  What can happen to the enrollment list: the six operations the hook returns, and the
  firing of one of the two callbacks that \<open>submitForReview\<close> schedules. A callback
  carries the id it was scheduled with; nothing cancels it, so it may fire at any
  later point.
\<close>

datatype action =
    EnrollInCampaign Campaign
  | UploadFile string FileInfo
  | SubmitForReview string
  | Fire_after_4s string
  | Fire_after_8s string
  | AdvanceEnrollment string
  | AdvanceToApproved string
  | RejectEnrollment string

fun perform :: "action \<Rightarrow> Enrollment list \<times> world \<Rightarrow> Enrollment list \<times> world" where
  "perform (EnrollInCampaign c) (es, w) = enrollInCampaign w c es"
| "perform (UploadFile i f) (es, w) = (uploadFile i f es, w)"
| "perform (SubmitForReview i) (es, w) = (submitForReview i es, w)"
| "perform (Fire_after_4s i) (es, w) = (submitForReview_after_4s i es, w)"
| "perform (Fire_after_8s i) (es, w) = submitForReview_after_8s w i es"
| "perform (AdvanceEnrollment i) (es, w) = advanceEnrollment w i es"
| "perform (AdvanceToApproved i) (es, w) = advanceToApproved w i es"
| "perform (RejectEnrollment i) (es, w) = (rejectEnrollment i es, w)"

definition run :: "action list \<Rightarrow> Enrollment list \<times> world \<Rightarrow> Enrollment list \<times> world" where
  "run as st = fold perform as st"

text \<open>The timers \<open>submitForReview\<close> sets: delay in milliseconds and callback.\<close>

definition submitForReview_timers :: "string \<Rightarrow> (nat \<times> action) list" where
  "submitForReview_timers enrollmentId =
     [(4000, Fire_after_4s enrollmentId), (8000, Fire_after_8s enrollmentId)]"

section \<open>The announcement queries of \<open>example-fetch\<close>\<close>

datatype js_error =
  TypeError | SyntaxError | RangeError | SecurityError | QuotaExceededError | NetworkError

text \<open>What \<open>console.log\<close>, \<open>console.warn\<close> and \<open>console.error\<close> print: level and message.\<close>

datatype log_level = Log | Warn | Error

type_synonym console = "(log_level \<times> string) list"

text \<open>
  A query as the query builder composes it, and what awaiting it gives: a thrown
  exception, or a response with \<open>data\<close> and \<open>error\<close>, each possibly \<open>null\<close>.
\<close>

record query =
  q_schema :: string
  q_from :: string
  q_select :: string
  q_eq :: "(string \<times> string) list"
  q_order :: "(string \<times> bool) option"
  q_single :: bool

type_synonym row = "(string \<times> string) list"

datatype rows = Rows "row list" | Row row

datatype response = Response (data: "rows option") (error: "string option")

type_synonym database = "query \<Rightarrow> js_error + response"

text \<open>
  \<open>supabase\<close> is \<open>null\<close> when the credentials are missing; \<open>supabase!.schema(...)\<close>
  then throws a TypeError inside the \<open>try\<close> block.
\<close>

definition await_query :: "database option \<Rightarrow> query \<Rightarrow> js_error + response" where
  "await_query supabase q = (case supabase of None \<Rightarrow> Inl TypeError | Some db \<Rightarrow> db q)"

definition announcments :: query where
  "announcments = \<lparr> q_schema = ''Snoonu Collaborators'', q_from = ''announcments'',
       q_select = ''*'', q_eq = [], q_order = None, q_single = False \<rparr>"

text \<open>Each function returns its value (\<open>None\<close> is \<open>null\<close>) and what it printed.\<close>

definition fetchAllAnnouncements :: "database option \<Rightarrow> rows option \<times> console" where
  "fetchAllAnnouncements supabase =
     (case await_query supabase announcments of
        Inl exn \<Rightarrow> (None, [(Error, ''Exception while fetching:'')])
      | Inr resp \<Rightarrow>
          (case error resp of
             Some err \<Rightarrow> (None, [(Error, ''Error fetching announcements:'')])
           | None \<Rightarrow> (data resp, [(Log, ''Fetched announcements:'')])))"

definition fetchAnnouncementsOrdered :: "database option \<Rightarrow> rows option \<times> console" where
  "fetchAnnouncementsOrdered supabase =
     (case await_query supabase (announcments\<lparr>q_order := Some (''created_at'', False)\<rparr>) of
        Inl exn \<Rightarrow> (None, [(Error, ''Exception:'')])
      | Inr resp \<Rightarrow>
          (case error resp of
             Some err \<Rightarrow> (None, [(Error, ''Error:'')])
           | None \<Rightarrow> (data resp, [])))"

definition fetchAnnouncementsBasic :: "database option \<Rightarrow> rows option \<times> console" where
  "fetchAnnouncementsBasic supabase =
     (case await_query supabase (announcments\<lparr>q_select := ''id, merchant, discount, reward''\<rparr>) of
        Inl exn \<Rightarrow> (None, [(Error, ''Exception:'')])
      | Inr resp \<Rightarrow>
          (case error resp of
             Some err \<Rightarrow> (None, [(Error, ''Error:'')])
           | None \<Rightarrow> (data resp, [])))"

definition fetchAnnouncementsByMerchant :: "database option \<Rightarrow> string \<Rightarrow> rows option \<times> console" where
  "fetchAnnouncementsByMerchant supabase merchantName =
     (case await_query supabase (announcments\<lparr>q_eq := [(''merchant'', merchantName)]\<rparr>) of
        Inl exn \<Rightarrow> (None, [(Error, ''Exception:'')])
      | Inr resp \<Rightarrow>
          (case error resp of
             Some err \<Rightarrow> (None, [(Error, ''Error:'')])
           | None \<Rightarrow> (data resp, [])))"

definition fetchAnnouncementById :: "database option \<Rightarrow> string \<Rightarrow> rows option \<times> console" where
  "fetchAnnouncementById supabase ident =
     (case await_query supabase (announcments\<lparr>q_eq := [(''id'', ident)], q_single := True\<rparr>) of
        Inl exn \<Rightarrow> (None, [(Error, ''Exception:'')])
      | Inr resp \<Rightarrow>
          (case error resp of
             Some err \<Rightarrow> (None, [(Error, ''Error:'')])
           | None \<Rightarrow> (data resp, [])))"

section \<open>The campaigns view of \<open>AnnouncementsTab\<close>\<close>

record announcements_tab =
  campaignsList :: "Campaign list"
  isLoading :: bool

text \<open>
  \<open>testSupabaseConnection\<close> and \<open>fetchCampaigns\<close> come from \<open>lib/supabaseQueries\<close>,
  which is not among the sources: \<open>loadCampaigns\<close> takes what awaiting each of them
  gives, a thrown exception or a value. A \<open>null\<close> in place of the campaign array makes
  \<open>.length\<close> throw inside the \<open>try\<close> block. The second call is not made when the first
  throws. The result is the state of the tab and what was printed.
\<close>

definition loadCampaigns ::
  "(js_error + bool) \<Rightarrow> (js_error + Campaign list option) \<Rightarrow> announcements_tab
     \<Rightarrow> announcements_tab \<times> console" where
  "loadCampaigns testSupabaseConnection fetchCampaigns st =
     (let mounted = [(Log, ''[AnnouncementsTab] Component mounted - loading campaigns...'')];
          st1 = st\<lparr>isLoading := True\<rparr>;
          caught = [(Error, ''[AnnouncementsTab] Failed to load campaigns from Supabase:'')];
          (st2, printed) =
            (case testSupabaseConnection of
               Inl exn \<Rightarrow> (st1\<lparr>campaignsList := []\<rparr>, caught)
             | Inr isConnected \<Rightarrow>
                 (let tested = [(Log, ''[AnnouncementsTab] Supabase connection test:'')] in
                  case fetchCampaigns of
                    Inl exn \<Rightarrow> (st1\<lparr>campaignsList := []\<rparr>, tested @ caught)
                  | Inr None \<Rightarrow> (st1\<lparr>campaignsList := []\<rparr>, tested @ caught)
                  | Inr (Some supabaseCampaigns) \<Rightarrow>
                      (let fetched = tested @ [(Log, ''[AnnouncementsTab] Fetched campaigns:'')] in
                       if length supabaseCampaigns > 0
                       then (st1\<lparr>campaignsList := supabaseCampaigns\<rparr>,
                             fetched @ [(Log, ''[AnnouncementsTab] Using Supabase campaigns'')])
                       else (st1\<lparr>campaignsList := []\<rparr>,
                             fetched @ [(Warn, ''[AnnouncementsTab] No campaigns found in database'')]))))
      in (st2\<lparr>isLoading := False\<rparr>, mounted @ printed))"

section \<open>The display order of \<open>EnrollmentsTab\<close>\<close>

text \<open>
  \<open>statusPriority\<close> is a lookup table; a key it does not hold gives \<open>undefined\<close>.
\<close>

definition statusPriority :: "string \<Rightarrow> int option" where
  "statusPriority = map_of
     [(''approved'', 6), (''under-review'', 5), (''processing'', 4),
      (''uploaded'', 3), (''enrolled'', 2), (''rejected'', 1)]"

text \<open>\<open>getTime()\<close>: the time value, NaN (\<open>None\<close>) for an invalid date.\<close>

definition getTime :: "Date \<Rightarrow> int option" where
  "getTime d = (case d of ValidDate t \<Rightarrow> Some t | InvalidDate \<Rightarrow> None)"

text \<open>
  Subtraction of JavaScript numbers that are whole or NaN (\<open>None\<close>); \<open>undefined\<close>
  converts to NaN.
\<close>

definition js_minus :: "int option \<Rightarrow> int option \<Rightarrow> int option" where
  "js_minus x y = (case (x, y) of (Some a, Some b) \<Rightarrow> Some (a - b) | _ \<Rightarrow> None)"

text \<open>
  The comparator handed to \<open>sort\<close>. \<open>NaN !== 0\<close> holds, so a NaN difference of
  priorities is returned as it is.
\<close>

definition compareEnrollments :: "Enrollment \<Rightarrow> Enrollment \<Rightarrow> int option" where
  "compareEnrollments a b =
     (let priorityDiff = js_minus (statusPriority (status b)) (statusPriority (status a))
      in if priorityDiff \<noteq> Some 0 then priorityDiff
         else js_minus (getTime (enrolledAt b)) (getTime (enrolledAt a)))"

text \<open>
  \<open>Array.prototype.sort\<close> is stable and reads a NaN from the comparator as 0. For a
  comparator that is a consistent ordering its result is the one stable sorted
  arrangement, which insertion from the right computes: an element stays in front of
  the elements it does not compare greater than.
\<close>

definition comes_first :: "('a \<Rightarrow> 'a \<Rightarrow> int option) \<Rightarrow> 'a \<Rightarrow> 'a \<Rightarrow> bool" where
  "comes_first cmp x y = (case cmp x y of None \<Rightarrow> True | Some v \<Rightarrow> v \<le> 0)"

fun insert_by :: "('a \<Rightarrow> 'a \<Rightarrow> int option) \<Rightarrow> 'a \<Rightarrow> 'a list \<Rightarrow> 'a list" where
  "insert_by cmp x [] = [x]"
| "insert_by cmp x (y # ys) = (if comes_first cmp x y then x # y # ys else y # insert_by cmp x ys)"

definition array_sort :: "('a \<Rightarrow> 'a \<Rightarrow> int option) \<Rightarrow> 'a list \<Rightarrow> 'a list" where
  "array_sort cmp xs = foldr (insert_by cmp) xs []"

definition sortedEnrollments :: "Enrollment list \<Rightarrow> Enrollment list" where
  "sortedEnrollments enrollments = array_sort compareEnrollments enrollments"

section \<open>The platform: dates and their ISO strings\<close>

text \<open>
  Day number and calendar arithmetic as the language standard defines them for time
  values. \<open>YearFromDay\<close> is the year \<open>y\<close> with
  \<open>DayFromYear y \<le> d < DayFromYear (y + 1)\<close>, found by stepping from 1970.
\<close>

definition msPerDay :: int where
  "msPerDay = 86400000"

definition Day :: "int \<Rightarrow> int" where
  "Day t = t div msPerDay"

definition TimeWithinDay :: "int \<Rightarrow> int" where
  "TimeWithinDay t = t mod msPerDay"

definition DaysInYear :: "int \<Rightarrow> int" where
  "DaysInYear y =
     (if y mod 4 \<noteq> 0 then 365 else if y mod 100 \<noteq> 0 then 366
      else if y mod 400 \<noteq> 0 then 365 else 366)"

definition DayFromYear :: "int \<Rightarrow> int" where
  "DayFromYear y = 365 * (y - 1970) + (y - 1969) div 4 - (y - 1901) div 100 + (y - 1601) div 400"

function find_year_up :: "int \<Rightarrow> int \<Rightarrow> int" where
  "find_year_up y d = (if DayFromYear (y + 1) \<le> d then find_year_up (y + 1) d else y)"
  by pat_completeness auto
termination
  by (relation "measure (\<lambda>(y, d). nat (d - DayFromYear (y + 1) + 1))")
     (simp_all add: DayFromYear_def)

function find_year_down :: "int \<Rightarrow> int \<Rightarrow> int" where
  "find_year_down y d = (if d < DayFromYear y then find_year_down (y - 1) d else y)"
  by pat_completeness auto
termination
  by (relation "measure (\<lambda>(y, d). nat (DayFromYear y - d))")
     (simp_all add: DayFromYear_def)

declare find_year_up.simps [simp del] find_year_down.simps [simp del]

definition YearFromDay :: "int \<Rightarrow> int" where
  "YearFromDay d = (if 0 \<le> d then find_year_up 1970 d else find_year_down 1969 d)"

definition InLeapYear :: "int \<Rightarrow> int" where
  "InLeapYear y = (if DaysInYear y = 366 then 1 else 0)"

text \<open>
  The day within the year on which month \<open>m\<close> (0 to 11) starts; \<open>m = 12\<close> gives the
  length of the year.
\<close>

definition month_start :: "int \<Rightarrow> int \<Rightarrow> int" where
  "month_start leap m =
     (if m \<le> 0 then 0 else if m = 1 then 31 else if m = 2 then 59 + leap
      else if m = 3 then 90 + leap else if m = 4 then 120 + leap
      else if m = 5 then 151 + leap else if m = 6 then 181 + leap
      else if m = 7 then 212 + leap else if m = 8 then 243 + leap
      else if m = 9 then 273 + leap else if m = 10 then 304 + leap
      else if m = 11 then 334 + leap else 365 + leap)"

definition MonthFromDay :: "int \<Rightarrow> int \<Rightarrow> int" where
  "MonthFromDay leap dwy =
     (if dwy < 31 then 0 else if dwy < 59 + leap then 1
      else if dwy < 90 + leap then 2 else if dwy < 120 + leap then 3
      else if dwy < 151 + leap then 4 else if dwy < 181 + leap then 5
      else if dwy < 212 + leap then 6 else if dwy < 243 + leap then 7
      else if dwy < 273 + leap then 8 else if dwy < 304 + leap then 9
      else if dwy < 334 + leap then 10 else 11)"

text \<open>\<open>MakeDay\<close> for a month from 1 to 12 and a day of the month from 1.\<close>

definition MakeDay :: "int \<Rightarrow> int \<Rightarrow> int \<Rightarrow> int" where
  "MakeDay y mo dd = DayFromYear y + month_start (InLeapYear y) (mo - 1) + dd - 1"

definition DaysInMonth :: "int \<Rightarrow> int \<Rightarrow> int" where
  "DaysInMonth y mo = month_start (InLeapYear y) mo - month_start (InLeapYear y) (mo - 1)"

text \<open>A time value outside 8.64e15 ms either side of the epoch is NaN.\<close>

definition TimeClip :: "int \<Rightarrow> Date" where
  "TimeClip t = (if \<bar>t\<bar> \<le> 8640000000000000 then ValidDate t else InvalidDate)"

text \<open>Zero-padded decimal of a fixed width, and the reading of decimal digits.\<close>

fun pad :: "nat \<Rightarrow> nat \<Rightarrow> string" where
  "pad k n = (if k = 0 then [] else pad (k - 1) (n div 10) @ [digit_char (n mod 10)])"

declare pad.simps [simp del]

definition is_digit :: "char \<Rightarrow> bool" where
  "is_digit c \<longleftrightarrow> 48 \<le> (of_char c :: nat) \<and> (of_char c :: nat) \<le> 57"

fun read_digits :: "nat \<Rightarrow> string \<Rightarrow> nat option" where
  "read_digits acc [] = Some acc"
| "read_digits acc (c # cs) =
     (if is_digit c then read_digits (10 * acc + (of_char c - 48)) cs else None)"

text \<open>
  \<open>toISOString\<close>: \<open>YYYY-MM-DDTHH:mm:ss.sssZ\<close>, the year as a sign and six digits when
  it is outside 0 to 9999; a RangeError for an invalid date.
\<close>

definition year_string :: "int \<Rightarrow> string" where
  "year_string y =
     (if 0 \<le> y \<and> y \<le> 9999 then pad 4 (nat y)
      else (if y < 0 then CHR ''-'' else CHR ''+'') # pad 6 (nat \<bar>y\<bar>))"

definition toISOString :: "Date \<Rightarrow> js_error + string" where
  "toISOString d =
     (case d of
        InvalidDate \<Rightarrow> Inl RangeError
      | ValidDate t \<Rightarrow>
          (let y = YearFromDay (Day t);
               dwy = Day t - DayFromYear y;
               m = MonthFromDay (InLeapYear y) dwy;
               dd = dwy - month_start (InLeapYear y) m + 1;
               ms = TimeWithinDay t
           in Inr (year_string y @ CHR ''-'' # pad 2 (nat (m + 1)) @ CHR ''-'' # pad 2 (nat dd)
                   @ CHR ''T'' # pad 2 (nat (ms div 3600000))
                   @ CHR '':'' # pad 2 (nat (ms div 60000 mod 60))
                   @ CHR '':'' # pad 2 (nat (ms div 1000 mod 60))
                   @ CHR ''.'' # pad 3 (nat (ms mod 1000)) @ ''Z'')))"

text \<open>Reading a string field by field.\<close>

definition take_digits :: "nat \<Rightarrow> string \<Rightarrow> (nat \<times> string) option" where
  "take_digits k s =
     (if length s < k then None
      else case read_digits 0 (take k s) of None \<Rightarrow> None | Some n \<Rightarrow> Some (n, drop k s))"

definition expect :: "char \<Rightarrow> string \<Rightarrow> string option" where
  "expect c s = (case s of [] \<Rightarrow> None | x # xs \<Rightarrow> if x = c then Some xs else None)"

text \<open>
  The time value of a string in the full date-time form that \<open>toISOString\<close> writes,
  with every field in range. \<open>None\<close> for any other string: what the platform makes
  of those is in part left to the implementation.
\<close>

definition iso_sign :: "string \<Rightarrow> int \<times> bool \<times> string" where
  "iso_sign s =
     (case s of
        [] \<Rightarrow> (1, False, s)
      | c # cs \<Rightarrow> if c = CHR ''+'' then (1, True, cs)
                  else if c = CHR ''-'' then (- 1, True, cs) else (1, False, s))"

definition iso_time :: "int \<Rightarrow> nat \<Rightarrow> nat \<Rightarrow> nat \<Rightarrow> nat \<Rightarrow> nat \<Rightarrow> nat \<Rightarrow> nat \<Rightarrow> string \<Rightarrow> int option" where
  "iso_time sg yy mo dd hh mi ss ms rest =
     (let y = sg * int yy in
      if rest \<noteq> [] \<or> (sg = - 1 \<and> yy = 0) \<or> mo < 1 \<or> 12 < mo \<or> dd < 1
         \<or> DaysInMonth y (int mo) < int dd \<or> 23 < hh \<or> 59 < mi \<or> 59 < ss
      then None
      else Some (MakeDay y (int mo) (int dd) * msPerDay
                 + int hh * 3600000 + int mi * 60000 + int ss * 1000 + int ms))"

definition parse_iso :: "string \<Rightarrow> int option" where
  "parse_iso s =
     (case iso_sign s of (sg, wide, s0) \<Rightarrow>
        do {
          (yy, s1) \<leftarrow> take_digits (if wide then 6 else 4) s0;
          s2 \<leftarrow> expect CHR ''-'' s1;
          (mo, s3) \<leftarrow> take_digits 2 s2;
          s4 \<leftarrow> expect CHR ''-'' s3;
          (dd, s5) \<leftarrow> take_digits 2 s4;
          s6 \<leftarrow> expect CHR ''T'' s5;
          (hh, s7) \<leftarrow> take_digits 2 s6;
          s8 \<leftarrow> expect CHR '':'' s7;
          (mi, s9) \<leftarrow> take_digits 2 s8;
          s10 \<leftarrow> expect CHR '':'' s9;
          (ss, s11) \<leftarrow> take_digits 2 s10;
          s12 \<leftarrow> expect CHR ''.'' s11;
          (ms, s13) \<leftarrow> take_digits 3 s12;
          s14 \<leftarrow> expect CHR ''Z'' s13;
          iso_time sg yy mo dd hh mi ss ms s14
        })"

section \<open>The platform: values, JSON text\<close>

text \<open>
  The values a program meets at run time. Numbers are whole numbers, as every number
  of this program is; an object is its properties in order. The platform lists the
  keys that are array indices before the others; no key of an enrollment is one.
\<close>

datatype jsval =
    JUndefined
  | JNull
  | JBool bool
  | JNum int
  | JStr string
  | JDate Date
  | JArr "jsval list"
  | JObj "(string \<times> jsval) list"

text \<open>Writing a property: in place when the key is there, at the end otherwise.\<close>

fun set_property :: "string \<Rightarrow> 'v \<Rightarrow> (string \<times> 'v) list \<Rightarrow> (string \<times> 'v) list" where
  "set_property k v [] = [(k, v)]"
| "set_property k v (p # ps) = (if fst p = k then (k, v) # ps else p # set_property k v ps)"

text \<open>
  \<open>new Date(v)\<close>. What a string outside the full date-time form, an array or an
  object converts to is given by \<open>engine\<close>, the implementation's own reading.
\<close>

definition new_Date :: "(jsval \<Rightarrow> Date) \<Rightarrow> jsval \<Rightarrow> Date" where
  "new_Date engine v =
     (case v of
        JUndefined \<Rightarrow> InvalidDate
      | JNull \<Rightarrow> ValidDate 0
      | JBool b \<Rightarrow> ValidDate (if b then 1 else 0)
      | JNum n \<Rightarrow> TimeClip n
      | JStr s \<Rightarrow> (case parse_iso s of Some t \<Rightarrow> TimeClip t | None \<Rightarrow> engine v)
      | JDate d \<Rightarrow> d
      | JArr vs \<Rightarrow> engine v
      | JObj ps \<Rightarrow> engine v)"

text \<open>\<open>JSON.stringify\<close>: quoting of strings.\<close>

definition dquote :: char where
  "dquote = CHR 0x22"

definition backslash :: char where
  "backslash = CHR 0x5C"

definition hex_char :: "nat \<Rightarrow> char" where
  "hex_char d = (if d < 10 then char_of (48 + d) else char_of (87 + d))"

definition quote_char :: "char \<Rightarrow> string" where
  "quote_char c =
     (let n = (of_char c :: nat) in
      if n = 8 then [backslash, CHR ''b'']
      else if n = 9 then [backslash, CHR ''t'']
      else if n = 10 then [backslash, CHR ''n'']
      else if n = 12 then [backslash, CHR ''f'']
      else if n = 13 then [backslash, CHR ''r'']
      else if n = 34 then [backslash, dquote]
      else if n = 92 then [backslash, backslash]
      else if n < 32 then [backslash, CHR ''u'', CHR ''0'', CHR ''0'', hex_char (n div 16), hex_char (n mod 16)]
      else [c])"

definition QuoteJSONString :: "string \<Rightarrow> string" where
  "QuoteJSONString s = dquote # concat (map quote_char s) @ [dquote]"

fun commas :: "string list \<Rightarrow> string" where
  "commas [] = []"
| "commas [x] = x"
| "commas (x # y # ys) = x @ CHR '','' # commas (y # ys)"

text \<open>
  The text of a value, \<open>None\<close> where \<open>JSON.stringify\<close> gives \<open>undefined\<close>. A date is
  written as its ISO string, an invalid one as \<open>null\<close>; in an array \<open>undefined\<close> is
  written \<open>null\<close>, in an object the property is left out.
\<close>

fun SerializeJSONProperty :: "jsval \<Rightarrow> string option" where
  "SerializeJSONProperty JUndefined = None"
| "SerializeJSONProperty JNull = Some ''null''"
| "SerializeJSONProperty (JBool b) = Some (if b then ''true'' else ''false'')"
| "SerializeJSONProperty (JNum n) = Some (show_int n)"
| "SerializeJSONProperty (JStr s) = Some (QuoteJSONString s)"
| "SerializeJSONProperty (JDate d) =
     (case toISOString d of Inl err \<Rightarrow> Some ''null'' | Inr s \<Rightarrow> Some (QuoteJSONString s))"
| "SerializeJSONProperty (JArr vs) =
     Some (CHR ''['' # commas (map (\<lambda>v. case SerializeJSONProperty v of
                                           None \<Rightarrow> ''null'' | Some t \<Rightarrow> t) vs) @ '']'')"
| "SerializeJSONProperty (JObj ps) =
     Some (CHR ''{'' # commas (concat (map (\<lambda>p. case SerializeJSONProperty (snd p) of
                                           None \<Rightarrow> []
                                         | Some t \<Rightarrow> [QuoteJSONString (fst p) @ CHR '':'' # t]) ps))
           @ ''}'')"

definition JSON_stringify :: "jsval \<Rightarrow> string option" where
  "JSON_stringify v = SerializeJSONProperty v"

text \<open>
  \<open>JSON.parse\<close>. Outside the model, and read as a syntax error: a number with a
  fraction or an exponent, and a \<open>\u\<close> escape above \<open>00ff\<close>.
\<close>

definition is_ws :: "char \<Rightarrow> bool" where
  "is_ws c \<longleftrightarrow> c = CHR '' '' \<or> c = CHR 0x09 \<or> c = CHR 0x0A \<or> c = CHR 0x0D"

definition skip_ws :: "string \<Rightarrow> string" where
  "skip_ws s = dropWhile is_ws s"

definition hex_val :: "char \<Rightarrow> nat option" where
  "hex_val c =
     (let n = (of_char c :: nat) in
      if 48 \<le> n \<and> n \<le> 57 then Some (n - 48)
      else if 97 \<le> n \<and> n \<le> 102 then Some (n - 87)
      else if 65 \<le> n \<and> n \<le> 70 then Some (n - 55)
      else None)"

definition unescape :: "char \<Rightarrow> char option" where
  "unescape e =
     (if e = dquote then Some dquote
      else if e = backslash then Some backslash
      else if e = CHR ''/'' then Some CHR ''/''
      else if e = CHR ''b'' then Some (CHR 0x08)
      else if e = CHR ''f'' then Some (CHR 0x0C)
      else if e = CHR ''n'' then Some (CHR 0x0A)
      else if e = CHR ''r'' then Some (CHR 0x0D)
      else if e = CHR ''t'' then Some (CHR 0x09)
      else None)"

definition and_then :: "char \<Rightarrow> (string \<times> string) option \<Rightarrow> (string \<times> string) option" where
  "and_then c r = (case r of None \<Rightarrow> None | Some (str, rest) \<Rightarrow> Some (c # str, rest))"

text \<open>The characters of a string up to its closing quote, and what follows the quote.\<close>

fun parse_chars :: "string \<Rightarrow> (string \<times> string) option" where
  "parse_chars [] = None"
| "parse_chars (c # cs) =
     (if c = dquote then Some ([], cs)
      else if c = backslash then
        (case cs of
           [] \<Rightarrow> None
         | e # cs1 \<Rightarrow>
             if e = CHR ''u'' then
               (case cs1 of
                  h1 # h2 # h3 # h4 # cs2 \<Rightarrow>
                    (case (hex_val h1, hex_val h2, hex_val h3, hex_val h4) of
                       (Some a, Some b, Some c3, Some d) \<Rightarrow>
                         if ((a * 16 + b) * 16 + c3) * 16 + d < 256
                         then and_then (char_of (((a * 16 + b) * 16 + c3) * 16 + d)) (parse_chars cs2)
                         else None
                     | _ \<Rightarrow> None)
                | _ \<Rightarrow> None)
             else (case unescape e of None \<Rightarrow> None | Some x \<Rightarrow> and_then x (parse_chars cs1)))
      else if (of_char c :: nat) < 32 then None
      else and_then c (parse_chars cs))"

definition number_sign :: "string \<Rightarrow> bool \<times> string" where
  "number_sign s =
     (case s of [] \<Rightarrow> (False, s) | c # cs \<Rightarrow> if c = CHR ''-'' then (True, cs) else (False, s))"

definition number_digits :: "bool \<Rightarrow> string \<Rightarrow> (int \<times> string) option" where
  "number_digits neg s =
     (let ds = takeWhile is_digit s;
          rest = dropWhile is_digit s
      in if ds = [] \<or> (1 < length ds \<and> hd ds = CHR ''0'')
            \<or> (rest \<noteq> [] \<and> (hd rest = CHR ''.'' \<or> hd rest = CHR ''e'' \<or> hd rest = CHR ''E''))
         then None
         else case read_digits 0 ds of
                None \<Rightarrow> None
              | Some n \<Rightarrow> Some (if neg then - int n else int n, rest))"

definition parse_number :: "string \<Rightarrow> (int \<times> string) option" where
  "parse_number s = (case number_sign s of (neg, s1) \<Rightarrow> number_digits neg s1)"

definition literal :: "string \<Rightarrow> jsval \<Rightarrow> string \<Rightarrow> (jsval \<times> string) option" where
  "literal word v s = (if take (length word) s = word then Some (v, drop (length word) s) else None)"

text \<open>
  The parser proper. Its first argument bounds the depth of the calls still allowed;
  \<open>JSON_parse\<close> starts it with more than the length of the text.
\<close>

fun parse_value :: "nat \<Rightarrow> string \<Rightarrow> (jsval \<times> string) option"
  and parse_elements :: "nat \<Rightarrow> string \<Rightarrow> (jsval list \<times> string) option"
  and parse_members :: "nat \<Rightarrow> string \<Rightarrow> ((string \<times> jsval) list \<times> string) option"
where
  "parse_value 0 s = None"
| "parse_value (Suc n) s =
     (case skip_ws s of
        [] \<Rightarrow> None
      | c # cs \<Rightarrow>
          if c = CHR ''n'' then literal ''null'' JNull (c # cs)
          else if c = CHR ''t'' then literal ''true'' (JBool True) (c # cs)
          else if c = CHR ''f'' then literal ''false'' (JBool False) (c # cs)
          else if c = dquote then
            (case parse_chars cs of None \<Rightarrow> None | Some (str, r) \<Rightarrow> Some (JStr str, r))
          else if c = CHR ''['' then
            (case skip_ws cs of
               [] \<Rightarrow> None
             | c1 # cs1 \<Rightarrow>
                 if c1 = CHR '']'' then Some (JArr [], cs1)
                 else (case parse_elements n cs of
                         None \<Rightarrow> None
                       | Some (vs, r) \<Rightarrow> Some (JArr vs, r)))
          else if c = CHR ''{'' then
            (case skip_ws cs of
               [] \<Rightarrow> None
             | c1 # cs1 \<Rightarrow>
                 if c1 = CHR ''}'' then Some (JObj [], cs1)
                 else (case parse_members n cs of
                         None \<Rightarrow> None
                       | Some (ps, r) \<Rightarrow> Some (JObj (fold (\<lambda>p. set_property (fst p) (snd p)) ps []), r)))
          else (case parse_number (c # cs) of None \<Rightarrow> None | Some (i, r) \<Rightarrow> Some (JNum i, r)))"
| "parse_elements 0 s = None"
| "parse_elements (Suc n) s =
     (case parse_value n s of
        None \<Rightarrow> None
      | Some (v, r) \<Rightarrow>
          (case skip_ws r of
             [] \<Rightarrow> None
           | c # cs \<Rightarrow>
               if c = CHR '','' then
                 (case parse_elements n cs of None \<Rightarrow> None | Some (vs, r1) \<Rightarrow> Some (v # vs, r1))
               else if c = CHR '']'' then Some ([v], cs)
               else None))"
| "parse_members 0 s = None"
| "parse_members (Suc n) s =
     (case skip_ws s of
        [] \<Rightarrow> None
      | c # cs \<Rightarrow>
          if c \<noteq> dquote then None
          else (case parse_chars cs of
                  None \<Rightarrow> None
                | Some (k, r) \<Rightarrow>
                    (case skip_ws r of
                       [] \<Rightarrow> None
                     | c1 # cs1 \<Rightarrow>
                         if c1 \<noteq> CHR '':'' then None
                         else (case parse_value n cs1 of
                                 None \<Rightarrow> None
                               | Some (v, r1) \<Rightarrow>
                                   (case skip_ws r1 of
                                      [] \<Rightarrow> None
                                    | c2 # cs2 \<Rightarrow>
                                        if c2 = CHR '','' then
                                          (case parse_members n cs2 of
                                             None \<Rightarrow> None
                                           | Some (ps, r2) \<Rightarrow> Some ((k, v) # ps, r2))
                                        else if c2 = CHR ''}'' then Some ([(k, v)], cs2)
                                        else None)))))"

definition JSON_parse :: "string \<Rightarrow> js_error + jsval" where
  "JSON_parse s =
     (case parse_value (Suc (length s)) s of
        None \<Rightarrow> Inl SyntaxError
      | Some (v, r) \<Rightarrow> if skip_ws r = [] then Inr v else Inl SyntaxError)"

section \<open>The platform: local storage\<close>

text \<open>
  The browser's store of strings under string keys. A read or a write throws when
  access is denied; a write throws when the item is more than the store will take.
\<close>

record localStorage =
  items :: "string \<rightharpoonup> string"
  access_denied :: bool
  capacity :: nat

definition getItem :: "localStorage \<Rightarrow> string \<Rightarrow> js_error + string option" where
  "getItem st k = (if access_denied st then Inl SecurityError else Inr (items st k))"

definition setItem :: "localStorage \<Rightarrow> string \<Rightarrow> string \<Rightarrow> js_error + localStorage" where
  "setItem st k v =
     (if access_denied st then Inl SecurityError
      else if capacity st < length k + length v then Inl QuotaExceededError
      else Inr (st\<lparr>items := (items st)(k \<mapsto> v)\<rparr>))"

record browser =
  storage :: localStorage
  printed :: console

section \<open>Persistence of the enrollments\<close>

text \<open>
  An enrollment as the object it is at run time. The record does not keep the order
  in which the properties were added; the object lists them in one fixed order, the
  absent ones left out.
\<close>

definition campaign_object :: "Campaign \<Rightarrow> jsval" where
  "campaign_object c =
     JObj [(''id'', JStr (campaign_id c)), (''merchant'', JStr (merchant c)),
           (''discount'', JStr (discount c)), (''reward'', JStr (reward c))]"

definition optional :: "string \<Rightarrow> ('a \<Rightarrow> jsval) \<Rightarrow> 'a option \<Rightarrow> (string \<times> jsval) list" where
  "optional k f x = (case x of None \<Rightarrow> [] | Some a \<Rightarrow> [(k, f a)])"

definition file_object :: "FileInfo \<Rightarrow> jsval" where
  "file_object f = JObj [(''name'', JStr (file_name f)), (''size'', JNum (file_size f))]"

definition stats_object :: "Stats \<Rightarrow> jsval" where
  "stats_object s =
     JObj [(''clicks'', JNum (stats_clicks s)), (''orders'', JNum (stats_orders s)),
           (''earnings'', JNum (stats_earnings s))]"

definition enrollment_properties :: "Enrollment \<Rightarrow> (string \<times> jsval) list" where
  "enrollment_properties e =
     [(''id'', JStr (enrollment_id e)), (''campaign'', campaign_object (campaign e)),
      (''status'', JStr (status e)), (''enrolledAt'', JDate (enrolledAt e))]
     @ optional ''clicks'' JNum (clicks e) @ optional ''orders'' JNum (orders e)
     @ optional ''earnings'' JNum (earnings e)
     @ optional ''uploadedFile'' file_object (uploadedFile e)
     @ optional ''referralUrl'' JStr (referralUrl e)
     @ optional ''stats'' stats_object (stats e)
     @ optional ''rejectionReason'' JStr (rejectionReason e)"

definition enrollment_object :: "Enrollment \<Rightarrow> jsval" where
  "enrollment_object e = JObj (enrollment_properties e)"

definition ENROLLMENTS_STORAGE_KEY :: string where
  "ENROLLMENTS_STORAGE_KEY = ''snoonu-collaborators-enrollments''"

text \<open>\<open>xs.map(f)\<close> for an \<open>f\<close> that may throw: the first throw ends it.\<close>

fun map_throwing :: "('a \<Rightarrow> js_error + 'b) \<Rightarrow> 'a list \<Rightarrow> js_error + 'b list" where
  "map_throwing f [] = Inr []"
| "map_throwing f (x # xs) =
     (case f x of
        Inl err \<Rightarrow> Inl err
      | Inr y \<Rightarrow> (case map_throwing f xs of Inl err \<Rightarrow> Inl err | Inr ys \<Rightarrow> Inr (y # ys)))"

text \<open>The own properties that \<open>{...e}\<close> copies.\<close>

definition own_properties :: "jsval \<Rightarrow> (string \<times> jsval) list" where
  "own_properties v =
     (case v of
        JObj ps \<Rightarrow> ps
      | JArr vs \<Rightarrow> map (\<lambda>i. (show_int (int i), vs ! i)) [0..<length vs]
      | JStr s \<Rightarrow> map (\<lambda>i. (show_int (int i), JStr [s ! i])) [0..<length s]
      | _ \<Rightarrow> [])"

text \<open>\<open>e.enrolledAt\<close>: a TypeError on \<open>null\<close> and \<open>undefined\<close>.\<close>

definition get_enrolledAt :: "jsval \<Rightarrow> js_error + jsval" where
  "get_enrolledAt v =
     (case v of
        JNull \<Rightarrow> Inl TypeError
      | JUndefined \<Rightarrow> Inl TypeError
      | JObj ps \<Rightarrow> (case map_of ps ''enrolledAt'' of None \<Rightarrow> Inr JUndefined | Some x \<Rightarrow> Inr x)
      | _ \<Rightarrow> Inr JUndefined)"

text \<open>
  The function \<open>loadEnrollmentsFromStorage\<close> maps over the parsed array:
  \<open>{...e, enrolledAt: new Date(e.enrolledAt)}\<close>.
\<close>

definition with_date :: "(jsval \<Rightarrow> Date) \<Rightarrow> jsval \<Rightarrow> js_error + jsval" where
  "with_date engine e =
     (case get_enrolledAt e of
        Inl err \<Rightarrow> Inl err
      | Inr stamp \<Rightarrow>
          Inr (JObj (set_property ''enrolledAt'' (JDate (new_Date engine stamp)) (own_properties e))))"

text \<open>The \<open>try\<close> block of \<open>loadEnrollmentsFromStorage\<close>.\<close>

definition load_attempt :: "(jsval \<Rightarrow> Date) \<Rightarrow> localStorage \<Rightarrow> js_error + jsval list" where
  "load_attempt engine st =
     (case getItem st ENROLLMENTS_STORAGE_KEY of
        Inl err \<Rightarrow> Inl err
      | Inr stored \<Rightarrow>
          (case stored of
             None \<Rightarrow> Inr []
           | Some text \<Rightarrow>
               if text = [] then Inr []
               else (case JSON_parse text of
                       Inl err \<Rightarrow> Inl err
                     | Inr parsed \<Rightarrow>
                         (case parsed of
                            JArr es \<Rightarrow> map_throwing (with_date engine) es
                          | _ \<Rightarrow> Inl TypeError))))"

definition loadEnrollmentsFromStorage :: "(jsval \<Rightarrow> Date) \<Rightarrow> browser \<Rightarrow> jsval list \<times> browser" where
  "loadEnrollmentsFromStorage engine b =
     (case load_attempt engine (storage b) of
        Inl err \<Rightarrow>
          ([], b\<lparr>printed := printed b
                  @ [(Error, ''[useCollaborators] Failed to load enrollments from localStorage:'')]\<rparr>)
      | Inr es \<Rightarrow> (es, b))"

text \<open>
  The function \<open>saveEnrollmentsToStorage\<close> maps over the enrollments:
  \<open>{...e, enrolledAt: e.enrolledAt.toISOString()}\<close>.
\<close>

definition with_iso_string :: "Enrollment \<Rightarrow> js_error + jsval" where
  "with_iso_string e =
     (case toISOString (enrolledAt e) of
        Inl err \<Rightarrow> Inl err
      | Inr isoString \<Rightarrow>
          Inr (JObj (set_property ''enrolledAt'' (JStr isoString) (enrollment_properties e))))"

text \<open>The \<open>try\<close> block of \<open>saveEnrollmentsToStorage\<close>.\<close>

definition save_attempt :: "Enrollment list \<Rightarrow> localStorage \<Rightarrow> js_error + localStorage" where
  "save_attempt enrollments st =
     (case map_throwing with_iso_string enrollments of
        Inl err \<Rightarrow> Inl err
      | Inr serialized \<Rightarrow>
          setItem st ENROLLMENTS_STORAGE_KEY
            (case JSON_stringify (JArr serialized) of None \<Rightarrow> ''undefined'' | Some text \<Rightarrow> text))"

definition saveEnrollmentsToStorage :: "Enrollment list \<Rightarrow> browser \<Rightarrow> browser" where
  "saveEnrollmentsToStorage enrollments b =
     (case save_attempt enrollments (storage b) of
        Inl err \<Rightarrow>
          b\<lparr>printed := printed b
              @ [(Error, ''[useCollaborators] Failed to save enrollments to localStorage:'')]\<rparr>
      | Inr st \<Rightarrow> b\<lparr>storage := st\<rparr>)"

section \<open>Predicates of the statements\<close>

text \<open>
  An approved enrollment carrying its statistics: a non-empty referral URL, the three
  counters within their ranges, and a stats record that repeats the counters.
\<close>

definition approved_with_statistics :: "Enrollment \<Rightarrow> bool" where
  "approved_with_statistics e \<longleftrightarrow>
     status e = ''approved'' \<and>
     (case (referralUrl e, clicks e, orders e, earnings e, stats e) of
        (Some u, Some c, Some d, Some g, Some s) \<Rightarrow>
           u \<noteq> [] \<and> 100 \<le> c \<and> c \<le> 599 \<and> 10 \<le> d \<and> d \<le> 59 \<and> 50 \<le> g \<and> g \<le> 249
           \<and> s = \<lparr>stats_clicks = c, stats_orders = d, stats_earnings = g\<rparr>
      | _ \<Rightarrow> False)"

text \<open>A query fails when awaiting it throws or its response reports an error.\<close>

definition query_fails :: "database option \<Rightarrow> query \<Rightarrow> bool" where
  "query_fails supabase q =
     (case await_query supabase q of Inl exn \<Rightarrow> True | Inr resp \<Rightarrow> error resp \<noteq> None)"

text \<open>
  The order the claim gives for the tab: approved, under-review, processing, uploaded,
  enrolled, rejected; within one status the later \<open>enrolledAt\<close> first.
\<close>

definition display_rank :: "string \<Rightarrow> nat" where
  "display_rank s =
     (if s = ''approved'' then 0 else if s = ''under-review'' then 1
      else if s = ''processing'' then 2 else if s = ''uploaded'' then 3
      else if s = ''enrolled'' then 4 else 5)"

definition shown_before :: "Enrollment \<Rightarrow> Enrollment \<Rightarrow> bool" where
  "shown_before a b \<longleftrightarrow>
     display_rank (status a) < display_rank (status b)
     \<or> (status a = status b \<and> time_value (enrolledAt b) \<le> time_value (enrolledAt a))"

text \<open>An enrollment the order is defined for: one of the six statuses, a valid date.\<close>

definition displayable :: "Enrollment \<Rightarrow> bool" where
  "displayable e \<longleftrightarrow> status e \<in> enrollment_statuses \<and> enrolledAt e \<noteq> InvalidDate"

text \<open>A date the platform can hold: a time value within 8.64e15 ms of the epoch.\<close>

definition valid_date :: "Date \<Rightarrow> bool" where
  "valid_date d = (case d of ValidDate t \<Rightarrow> \<bar>t\<bar> \<le> 8640000000000000 | InvalidDate \<Rightarrow> False)"

text \<open>The \<open>try\<close> block of \<open>saveEnrollmentsToStorage\<close> ran to its end: nothing threw.\<close>

definition write_accepted :: "Enrollment list \<Rightarrow> browser \<Rightarrow> bool" where
  "write_accepted es b = (case save_attempt es (storage b) of Inl err \<Rightarrow> False | Inr st \<Rightarrow> True)"

text \<open>
  Reading an object back as a record, property by property: the typed view of what
  \<open>loadEnrollmentsFromStorage\<close> returns.
\<close>

definition string_property :: "(string \<times> jsval) list \<Rightarrow> string \<Rightarrow> string option" where
  "string_property ps k = (case map_of ps k of Some (JStr s) \<Rightarrow> Some s | _ \<Rightarrow> None)"

definition number_property :: "(string \<times> jsval) list \<Rightarrow> string \<Rightarrow> int option" where
  "number_property ps k = (case map_of ps k of Some (JNum n) \<Rightarrow> Some n | _ \<Rightarrow> None)"

definition as_campaign :: "jsval \<Rightarrow> Campaign option" where
  "as_campaign v =
     (case v of
        JObj ps \<Rightarrow>
          (case (string_property ps ''id'', string_property ps ''merchant'',
                 string_property ps ''discount'', string_property ps ''reward'') of
             (Some i, Some m, Some d, Some r) \<Rightarrow>
               Some \<lparr>campaign_id = i, merchant = m, discount = d, reward = r\<rparr>
           | _ \<Rightarrow> None)
      | _ \<Rightarrow> None)"

definition as_file :: "jsval \<Rightarrow> FileInfo option" where
  "as_file v =
     (case v of
        JObj ps \<Rightarrow>
          (case (string_property ps ''name'', number_property ps ''size'') of
             (Some n, Some s) \<Rightarrow> Some \<lparr>file_name = n, file_size = s\<rparr>
           | _ \<Rightarrow> None)
      | _ \<Rightarrow> None)"

definition as_stats :: "jsval \<Rightarrow> Stats option" where
  "as_stats v =
     (case v of
        JObj ps \<Rightarrow>
          (case (number_property ps ''clicks'', number_property ps ''orders'',
                 number_property ps ''earnings'') of
             (Some c, Some d, Some g) \<Rightarrow> Some \<lparr>stats_clicks = c, stats_orders = d, stats_earnings = g\<rparr>
           | _ \<Rightarrow> None)
      | _ \<Rightarrow> None)"

definition as_enrollment :: "jsval \<Rightarrow> Enrollment option" where
  "as_enrollment v =
     (case v of
        JObj ps \<Rightarrow>
          (case (string_property ps ''id'', Option.bind (map_of ps ''campaign'') as_campaign,
                 string_property ps ''status'', map_of ps ''enrolledAt'') of
             (Some i, Some c, Some s, Some (JDate d)) \<Rightarrow>
               Some \<lparr> enrollment_id = i, campaign = c, status = s, enrolledAt = d,
                      uploadedFile = Option.bind (map_of ps ''uploadedFile'') as_file,
                      referralUrl = string_property ps ''referralUrl'',
                      clicks = number_property ps ''clicks'',
                      orders = number_property ps ''orders'',
                      earnings = number_property ps ''earnings'',
                      stats = Option.bind (map_of ps ''stats'') as_stats,
                      rejectionReason = string_property ps ''rejectionReason'' \<rparr>
           | _ \<Rightarrow> None)
      | _ \<Rightarrow> None)"

text \<open>The lines the two \<open>catch\<close> blocks print.\<close>

definition load_failure_line :: "log_level \<times> string" where
  "load_failure_line = (Error, ''[useCollaborators] Failed to load enrollments from localStorage:'')"

definition save_failure_line :: "log_level \<times> string" where
  "save_failure_line = (Error, ''[useCollaborators] Failed to save enrollments to localStorage:'')"

section \<open>Notions of the proofs\<close>

text \<open>The part of an ISO string after the year.\<close>

definition iso_tail :: "nat \<Rightarrow> nat \<Rightarrow> nat \<Rightarrow> nat \<Rightarrow> nat \<Rightarrow> nat \<Rightarrow> string" where
  "iso_tail mo dd hh mi ss ms =
     CHR ''-'' # pad 2 mo @ CHR ''-'' # pad 2 dd @ CHR ''T'' # pad 2 hh
       @ CHR '':'' # pad 2 mi @ CHR '':'' # pad 2 ss @ CHR ''.'' # pad 3 ms @ ''Z''"

text \<open>
  Inside a JSON text a value is followed by a comma or a closing bracket, or by
  nothing; a value starts with a character that is neither white space nor a closing
  bracket.
\<close>

definition follows :: "string \<Rightarrow> bool" where
  "follows rest \<longleftrightarrow>
     (case rest of [] \<Rightarrow> True | c # cs \<Rightarrow> c = CHR '','' \<or> c = CHR '']'' \<or> c = CHR ''}'')"

definition value_start :: "char \<Rightarrow> bool" where
  "value_start c \<longleftrightarrow> \<not> is_ws c \<and> c \<noteq> CHR '']'' \<and> c \<noteq> CHR ''}''"

text \<open>
  The values JSON text holds as they are: no \<open>undefined\<close>, no date, no object with
  a repeated key.
\<close>

fun plain :: "jsval \<Rightarrow> bool" where
  "plain JUndefined = False"
| "plain JNull = True"
| "plain (JBool b) = True"
| "plain (JNum n) = True"
| "plain (JStr s) = True"
| "plain (JDate d) = False"
| "plain (JArr vs) = list_all plain vs"
| "plain (JObj ps) = (distinct (map fst ps) \<and> list_all (\<lambda>p. plain (snd p)) ps)"

text \<open>The text of a value inside an array, and of a property inside an object.\<close>

definition json_text :: "jsval \<Rightarrow> string" where
  "json_text v = (case SerializeJSONProperty v of None \<Rightarrow> ''null'' | Some t \<Rightarrow> t)"

definition member_text :: "string \<times> jsval \<Rightarrow> string" where
  "member_text p = QuoteJSONString (fst p) @ CHR '':'' # json_text (snd p)"

text \<open>
  The properties of an enrollment with any value in place of the date, and the ISO
  string of its date.
\<close>

definition saved_properties :: "Enrollment \<Rightarrow> jsval \<Rightarrow> (string \<times> jsval) list" where
  "saved_properties e stamp =
     [(''id'', JStr (enrollment_id e)), (''campaign'', campaign_object (campaign e)),
      (''status'', JStr (status e)), (''enrolledAt'', stamp)]
     @ optional ''clicks'' JNum (clicks e) @ optional ''orders'' JNum (orders e)
     @ optional ''earnings'' JNum (earnings e)
     @ optional ''uploadedFile'' file_object (uploadedFile e)
     @ optional ''referralUrl'' JStr (referralUrl e)
     @ optional ''stats'' stats_object (stats e)
     @ optional ''rejectionReason'' JStr (rejectionReason e)"

definition iso_of :: "Enrollment \<Rightarrow> string" where
  "iso_of e = (case toISOString (enrolledAt e) of Inl err \<Rightarrow> [] | Inr s \<Rightarrow> s)"

section \<open>Sample data\<close>

definition sample_campaign :: Campaign where
  "sample_campaign = \<lparr> campaign_id = ''c1'', merchant = ''Cafe'', discount = ''10%'', reward = ''5 QAR'' \<rparr>"

definition sample_enrollment :: "string \<Rightarrow> EnrollmentStatus \<Rightarrow> int \<Rightarrow> Enrollment" where
  "sample_enrollment i s t =
     \<lparr> enrollment_id = i, campaign = sample_campaign, status = s, enrolledAt = ValidDate t,
       uploadedFile = None, referralUrl = None, clicks = Some 0, orders = Some 0,
       earnings = Some 0, stats = None, rejectionReason = None \<rparr>"

text \<open>An enrollment whose date is invalid, as loading a stored record without \<open>enrolledAt\<close> gives.\<close>

definition undated_enrollment :: "string \<Rightarrow> EnrollmentStatus \<Rightarrow> Enrollment" where
  "undated_enrollment i s = (sample_enrollment i s 0)\<lparr>enrolledAt := InvalidDate\<rparr>"

definition sample_file :: FileInfo where
  "sample_file = \<lparr> file_name = ''clip.mp4'', file_size = 1024 \<rparr>"

definition sample_world :: world where
  "sample_world = \<lparr> draws = (\<lambda>n. 1/2), ticks = (\<lambda>n. 1700000000000 + int n) \<rparr>"

definition failing_database :: database where
  "failing_database = (\<lambda>q. Inr (Response None (Some ''permission denied'')))"

definition sample_tab :: announcements_tab where
  "sample_tab = \<lparr>campaignsList = [sample_campaign], isLoading = False\<rparr>"

definition sample_browser :: browser where
  "sample_browser =
     \<lparr> storage = \<lparr> items = Map.empty, access_denied = False, capacity = 5000000 \<rparr>, printed = [] \<rparr>"

definition full_browser :: browser where
  "full_browser =
     \<lparr> storage = \<lparr> items = Map.empty, access_denied = False, capacity = 0 \<rparr>, printed = [] \<rparr>"

definition broken_browser :: browser where
  "broken_browser =
     \<lparr> storage = \<lparr> items = [ENROLLMENTS_STORAGE_KEY \<mapsto> ''[{oops''], access_denied = False,
                     capacity = 0 \<rparr>,
       printed = [] \<rparr>"

section \<open>Properties of the enrollment operations\<close>

lemma map_world_Cons:
  "map_world f w (x # xs) =
     (fst (f w x) # fst (map_world f (snd (f w x)) xs), snd (map_world f (snd (f w x)) xs))"
  by (simp add: split_beta)

lemma length_map_world [simp]: "length (fst (map_world f w xs)) = length xs"
  by (induction xs arbitrary: w) (simp_all add: split_beta)

lemma map_world_rel:
  assumes step: "\<And>w x. I w \<Longrightarrow> P x (fst (f w x)) \<and> I (snd (f w x))"
  shows "I w \<Longrightarrow> list_all2 P xs (fst (map_world f w xs)) \<and> I (snd (map_world f w xs))"
proof (induction xs arbitrary: w)
  case Nil
  then show ?case by simp
next
  case (Cons x xs)
  from step [OF Cons.prems] have y: "P x (fst (f w x))" and w1: "I (snd (f w x))" by auto
  from Cons.IH [OF w1] y show ?case by (simp add: split_beta)
qed

lemma map_world_all2:
  assumes "\<And>w x. P x (fst (f w x))"
  shows "list_all2 P xs (fst (map_world f w xs))"
  using map_world_rel [where I = "\<lambda>_. True" and P = P and f = f] assms by simp

lemma map_world_nth:
  assumes "\<And>w x. P x (fst (f w x))" and "i < length xs"
  shows "P (xs ! i) (fst (map_world f w xs) ! i)"
  using map_world_all2 [of P f xs w] assms by (simp add: list_all2_nthD)


lemma after_8s_nth:
  assumes "i < length prev"
  shows "(enrollment_id (prev ! i) \<noteq> eid \<or> status (prev ! i) \<noteq> ''under-review''
           \<longrightarrow> fst (submitForReview_after_8s w eid prev) ! i = prev ! i)"
  unfolding submitForReview_after_8s_def
  by (rule map_world_nth [where P = "\<lambda>x y. enrollment_id x \<noteq> eid \<or> status x \<noteq> ''under-review'' \<longrightarrow> y = x", OF _ assms]) simp

lemma advance_nth_terminal:
  assumes "i < length prev"
  shows "isTerminalState (status (prev ! i)) \<longrightarrow> fst (advanceEnrollment w eid prev) ! i = prev ! i"
  unfolding advanceEnrollment_def
  by (rule map_world_nth [where P = "\<lambda>x y. isTerminalState (status x) \<longrightarrow> y = x", OF _ assms]) simp

lemma advance_nth_other:
  assumes "i < length prev"
  shows "enrollment_id (prev ! i) \<noteq> eid \<longrightarrow> fst (advanceEnrollment w eid prev) ! i = prev ! i"
  unfolding advanceEnrollment_def
  by (rule map_world_nth [where P = "\<lambda>x y. enrollment_id x \<noteq> eid \<longrightarrow> y = x", OF _ assms]) simp

lemma approved_nth_other:
  assumes "i < length prev"
  shows "enrollment_id (prev ! i) \<noteq> eid \<longrightarrow> fst (advanceToApproved w eid prev) ! i = prev ! i"
  unfolding advanceToApproved_def
  by (rule map_world_nth [where P = "\<lambda>x y. enrollment_id x \<noteq> eid \<longrightarrow> y = x", OF _ assms]) simp

lemma status_approve [simp]: "status (fst (approve a b c w e)) = ''approved''"
  by (simp add: approve_def split_beta Let_def)

lemma approved_nth_status:
  assumes "i < length prev"
  shows "status (prev ! i) = ''approved'' \<longrightarrow> status (fst (advanceToApproved w eid prev) ! i) = ''approved''"
  unfolding advanceToApproved_def
  by (rule map_world_nth [where P = "\<lambda>x y. status x = ''approved'' \<longrightarrow> status y = ''approved''", OF _ assms]) simp

text \<open>
  Claim C1, as amended. An enrollment whose status is approved or rejected is left
  as it is by \<open>advanceEnrollment\<close> and by both delayed callbacks of
  \<open>submitForReview\<close>; \<open>advanceToApproved\<close> keeps an approved status and
  \<open>rejectEnrollment\<close> keeps a rejected status; and each of the four unguarded
  operations leaves it as it is when its id is not the one the operation is given.
\<close>

theorem terminal_states_kept:
  assumes i: "i < length prev"
    and t: "status (prev ! i) = ''approved'' \<or> status (prev ! i) = ''rejected''"
  shows "fst (advanceEnrollment w eid prev) ! i = prev ! i
       \<and> submitForReview_after_4s eid prev ! i = prev ! i
       \<and> fst (submitForReview_after_8s w eid prev) ! i = prev ! i
       \<and> (status (prev ! i) = ''approved'' \<longrightarrow>
             status (fst (advanceToApproved w eid prev) ! i) = ''approved'')
       \<and> (status (prev ! i) = ''rejected'' \<longrightarrow>
             status (rejectEnrollment eid prev ! i) = ''rejected'')
       \<and> (enrollment_id (prev ! i) \<noteq> eid \<longrightarrow>
             uploadFile eid f prev ! i = prev ! i
           \<and> submitForReview eid prev ! i = prev ! i
           \<and> fst (advanceToApproved w eid prev) ! i = prev ! i
           \<and> rejectEnrollment eid prev ! i = prev ! i)"
proof -
  from t have tm: "isTerminalState (status (prev ! i))"
    by (simp add: isTerminalState_def)
  from t have ne: "status (prev ! i) \<noteq> ''processing''" "status (prev ! i) \<noteq> ''under-review''"
    by auto
  have a: "fst (advanceEnrollment w eid prev) ! i = prev ! i"
    using advance_nth_terminal [OF i] tm by simp
  have b: "submitForReview_after_4s eid prev ! i = prev ! i"
    using i ne by (simp add: submitForReview_after_4s_def)
  have c: "fst (submitForReview_after_8s w eid prev) ! i = prev ! i"
    using after_8s_nth [OF i] ne by simp
  have d: "status (prev ! i) = ''approved'' \<longrightarrow>
             status (fst (advanceToApproved w eid prev) ! i) = ''approved''"
    by (rule approved_nth_status [OF i])
  have e: "status (prev ! i) = ''rejected'' \<longrightarrow>
             status (rejectEnrollment eid prev ! i) = ''rejected''"
    using i by (simp add: rejectEnrollment_def)
  have g: "enrollment_id (prev ! i) \<noteq> eid \<longrightarrow>
             uploadFile eid f prev ! i = prev ! i
           \<and> submitForReview eid prev ! i = prev ! i
           \<and> fst (advanceToApproved w eid prev) ! i = prev ! i
           \<and> rejectEnrollment eid prev ! i = prev ! i"
    using i approved_nth_other [OF i]
    by (simp add: uploadFile_def submitForReview_def rejectEnrollment_def)
  from a b c d e g show ?thesis by blast
qed

text \<open>
  Claim C1 as stated fails: \<open>uploadFile\<close> tests the id only, so an approved
  enrollment with the given id becomes uploaded.
\<close>

theorem upload_overwrites_approved:
  "map status (uploadFile ''e1'' sample_file [sample_enrollment ''e1'' ''approved'' 5]) = [''uploaded'']"
  by (simp add: uploadFile_def sample_enrollment_def)

theorem terminal_states_kept_witness:
  "fst (advanceEnrollment sample_world ''e1'' [sample_enrollment ''e1'' ''approved'' 5]) ! 0
     = sample_enrollment ''e1'' ''approved'' 5
   \<and> rejectEnrollment ''e2'' [sample_enrollment ''e1'' ''approved'' 5] ! 0
     = sample_enrollment ''e1'' ''approved'' 5"
  using terminal_states_kept [of 0 "[sample_enrollment ''e1'' ''approved'' 5]" sample_world "''e1''"]
        terminal_states_kept [of 0 "[sample_enrollment ''e1'' ''approved'' 5]" sample_world "''e2''"]
  by (simp add: sample_enrollment_def)

lemma advance_nth_step:
  assumes "i < length prev"
  shows "enrollment_id (prev ! i) = eid \<longrightarrow>
           (status (prev ! i) = ''enrolled'' \<longrightarrow> status (fst (advanceEnrollment w eid prev) ! i) = ''uploaded'')
         \<and> (status (prev ! i) = ''uploaded'' \<longrightarrow> status (fst (advanceEnrollment w eid prev) ! i) = ''processing'')
         \<and> (status (prev ! i) = ''processing'' \<longrightarrow> status (fst (advanceEnrollment w eid prev) ! i) = ''under-review'')
         \<and> (status (prev ! i) = ''under-review'' \<longrightarrow> status (fst (advanceEnrollment w eid prev) ! i) = ''approved'')"
  unfolding advanceEnrollment_def
  by (rule map_world_nth [where P = "\<lambda>x y. enrollment_id x = eid \<longrightarrow>
           (status x = ''enrolled'' \<longrightarrow> status y = ''uploaded'')
         \<and> (status x = ''uploaded'' \<longrightarrow> status y = ''processing'')
         \<and> (status x = ''processing'' \<longrightarrow> status y = ''under-review'')
         \<and> (status x = ''under-review'' \<longrightarrow> status y = ''approved'')", OF _ assms])
     (simp add: isTerminalState_def nextEnrollmentState_def)

text \<open>
  Claim C2. For an enrollment with the given id, \<open>advanceEnrollment\<close> moves the
  status one step along enrolled, uploaded, processing, under-review, approved, and
  leaves an approved or rejected enrollment unchanged.
\<close>

theorem advanceEnrollment_one_step:
  assumes i: "i < length prev" and m: "enrollment_id (prev ! i) = eid"
  shows "(status (prev ! i) = ''enrolled'' \<longrightarrow> status (fst (advanceEnrollment w eid prev) ! i) = ''uploaded'')
       \<and> (status (prev ! i) = ''uploaded'' \<longrightarrow> status (fst (advanceEnrollment w eid prev) ! i) = ''processing'')
       \<and> (status (prev ! i) = ''processing'' \<longrightarrow> status (fst (advanceEnrollment w eid prev) ! i) = ''under-review'')
       \<and> (status (prev ! i) = ''under-review'' \<longrightarrow> status (fst (advanceEnrollment w eid prev) ! i) = ''approved'')
       \<and> (status (prev ! i) = ''approved'' \<or> status (prev ! i) = ''rejected'' \<longrightarrow>
            fst (advanceEnrollment w eid prev) ! i = prev ! i)"
proof -
  have "status (prev ! i) = ''approved'' \<or> status (prev ! i) = ''rejected'' \<longrightarrow>
            fst (advanceEnrollment w eid prev) ! i = prev ! i"
    using advance_nth_terminal [OF i, of w eid] by (simp add: isTerminalState_def)
  with advance_nth_step [OF i, of eid w] m show ?thesis by blast
qed

theorem advanceEnrollment_one_step_witness:
  "status (fst (advanceEnrollment sample_world ''e1''
      [sample_enrollment ''e1'' ''under-review'' 5]) ! 0) = ''approved''
   \<and> status (fst (advanceEnrollment sample_world ''e1''
      [sample_enrollment ''e1'' ''enrolled'' 5]) ! 0) = ''uploaded''
   \<and> fst (advanceEnrollment sample_world ''e1'' [sample_enrollment ''e1'' ''rejected'' 5]) ! 0
       = sample_enrollment ''e1'' ''rejected'' 5"
  using advanceEnrollment_one_step [of 0 "[sample_enrollment ''e1'' ''under-review'' 5]" "''e1''" sample_world]
        advanceEnrollment_one_step [of 0 "[sample_enrollment ''e1'' ''enrolled'' 5]" "''e1''" sample_world]
        advanceEnrollment_one_step [of 0 "[sample_enrollment ''e1'' ''rejected'' 5]" "''e1''" sample_world]
  by (simp add: sample_enrollment_def)

lemma list_all2_carry:
  assumes "list_all2 P xs ys" and "\<forall>x\<in>set xs. Q x" and "\<And>x y. P x y \<Longrightarrow> Q x \<Longrightarrow> Q y"
  shows "\<forall>y\<in>set ys. Q y"
  using assms by (induction rule: list_all2_induct) auto

lemma map_world_carry:
  assumes "\<And>w x. Q x \<Longrightarrow> Q (fst (f w x))" and "\<forall>x\<in>set xs. Q x"
  shows "\<forall>y\<in>set (fst (map_world f w xs)). Q y"
  by (rule list_all2_carry [OF map_world_all2 [where P = "\<lambda>x y. Q x \<longrightarrow> Q y" and f = f] assms(2)])
     (use assms(1) in auto)

lemma next_state_closed:
  "nextEnrollmentState s = Some t \<Longrightarrow> t \<in> enrollment_statuses"
  by (auto simp: nextEnrollmentState_def enrollment_statuses_def split: if_splits)

lemma perform_closed:
  assumes "\<forall>e\<in>set es. status e \<in> enrollment_statuses"
  shows "\<forall>e\<in>set (fst (perform a (es, w))). status e \<in> enrollment_statuses"
proof (cases a)
  case (EnrollInCampaign c)
  then show ?thesis using assms
    by (auto simp: enrollInCampaign_def split_beta Let_def enrollment_statuses_def)
next
  case (UploadFile i f)
  then show ?thesis using assms by (auto simp: uploadFile_def enrollment_statuses_def)
next
  case (SubmitForReview i)
  then show ?thesis using assms by (auto simp: submitForReview_def enrollment_statuses_def)
next
  case (Fire_after_4s i)
  then show ?thesis using assms by (auto simp: submitForReview_after_4s_def enrollment_statuses_def)
next
  case (Fire_after_8s i)
  have "\<forall>y\<in>set (fst (submitForReview_after_8s w i es)). status y \<in> enrollment_statuses"
    unfolding submitForReview_after_8s_def
    by (rule map_world_carry [OF _ assms]) (simp add: enrollment_statuses_def)
  with Fire_after_8s show ?thesis by simp
next
  case (AdvanceEnrollment i)
  have "\<forall>y\<in>set (fst (advanceEnrollment w i es)). status y \<in> enrollment_statuses"
    unfolding advanceEnrollment_def
  proof (rule map_world_carry [OF _ assms])
    fix w :: world and x :: Enrollment
    assume x: "status x \<in> enrollment_statuses"
    have ap: "''approved'' \<in> enrollment_statuses" by (simp add: enrollment_statuses_def)
    show "status (fst (if enrollment_id x \<noteq> i \<or> isTerminalState (status x) then (x, w)
        else case nextEnrollmentState (status x) of
               None \<Rightarrow> (x, w)
             | Some nextStatus \<Rightarrow>
                 if nextStatus = [] then (x, w)
                 else let updated = x\<lparr>status := nextStatus\<rparr>
                      in if nextStatus = ''approved'' then approve 400 40 150 w updated
                         else (updated, w))) \<in> enrollment_statuses"
      using x ap by (auto simp: Let_def dest: next_state_closed split: option.splits)
  qed
  with AdvanceEnrollment show ?thesis by simp
next
  case (AdvanceToApproved i)
  have "\<forall>y\<in>set (fst (advanceToApproved w i es)). status y \<in> enrollment_statuses"
    unfolding advanceToApproved_def
    by (rule map_world_carry [OF _ assms]) (simp add: enrollment_statuses_def)
  with AdvanceToApproved show ?thesis by simp
next
  case (RejectEnrollment i)
  then show ?thesis using assms by (auto simp: rejectEnrollment_def enrollment_statuses_def)
qed

lemma run_Cons: "run (a # as) st = run as (perform a st)"
  by (simp add: run_def)

text \<open>
  Claim C6. If every status is one of the six values, then after any sequence of
  operations and callback firings every status is still one of the six values.
\<close>

theorem statuses_stay_in_closed_set:
  "\<forall>e\<in>set es. status e \<in> enrollment_statuses \<Longrightarrow>
   \<forall>e\<in>set (fst (run as (es, w))). status e \<in> enrollment_statuses"
proof (induction as arbitrary: es w)
  case Nil
  then show ?case by (simp add: run_def)
next
  case (Cons a as)
  obtain es1 w1 where p: "perform a (es, w) = (es1, w1)" by (cases "perform a (es, w)")
  from perform_closed [OF Cons.prems, of a w] p
  have "\<forall>e\<in>set es1. status e \<in> enrollment_statuses" by simp
  from Cons.IH [OF this, of w1] p show ?case by (simp add: run_Cons)
qed

theorem statuses_stay_in_closed_set_witness:
  "status (sample_enrollment ''e1'' ''enrolled'' 5) \<in> enrollment_statuses
   \<and> set (map status (fst (run [SubmitForReview ''e1'', Fire_after_4s ''e1'', Fire_after_8s ''e1'']
          ([sample_enrollment ''e1'' ''enrolled'' 5], sample_world)))) \<subseteq> enrollment_statuses"
  using statuses_stay_in_closed_set
          [of "[sample_enrollment ''e1'' ''enrolled'' 5]"
              "[SubmitForReview ''e1'', Fire_after_4s ''e1'', Fire_after_8s ''e1'']" sample_world]
  by (auto simp: sample_enrollment_def enrollment_statuses_def)

lemma enroll_appends:
  "\<exists>n w'. enrollInCampaign w c prev = (prev @ [n], w') \<and> status n = ''enrolled'' \<and> campaign n = c
      \<and> clicks n = Some 0 \<and> orders n = Some 0 \<and> earnings n = Some 0"
  by (simp add: enrollInCampaign_def split_beta Let_def)

lemma map_world_ids:
  assumes "\<And>w x. enrollment_id (fst (f w x)) = enrollment_id x"
  shows "map enrollment_id (fst (map_world f w xs)) = map enrollment_id xs"
  by (induction xs arbitrary: w) (simp_all add: split_beta assms)

lemma enrollment_id_approve [simp]: "enrollment_id (fst (approve a b c w e)) = enrollment_id e"
  by (simp add: approve_def split_beta Let_def)

lemma map_ids:
  assumes "\<And>x. enrollment_id (f x) = enrollment_id x"
  shows "map enrollment_id (map f xs) = map enrollment_id xs"
  by (induction xs) (simp_all add: assms)

lemma perform_keeps:
  "\<exists>new. map enrollment_id (fst (perform a (es, w))) = map enrollment_id es @ new"
proof (cases a)
  case (EnrollInCampaign c)
  then show ?thesis by (simp add: enrollInCampaign_def split_beta Let_def)
next
  case (UploadFile i f)
  have "map enrollment_id (uploadFile i f es) = map enrollment_id es"
    unfolding uploadFile_def by (rule map_ids) simp
  with UploadFile show ?thesis by simp
next
  case (SubmitForReview i)
  have "map enrollment_id (submitForReview i es) = map enrollment_id es"
    unfolding submitForReview_def by (rule map_ids) simp
  with SubmitForReview show ?thesis by simp
next
  case (Fire_after_4s i)
  have "map enrollment_id (submitForReview_after_4s i es) = map enrollment_id es"
    unfolding submitForReview_after_4s_def by (rule map_ids) simp
  with Fire_after_4s show ?thesis by simp
next
  case (Fire_after_8s i)
  have "map enrollment_id (fst (submitForReview_after_8s w i es)) = map enrollment_id es"
    unfolding submitForReview_after_8s_def by (rule map_world_ids) simp
  with Fire_after_8s show ?thesis by simp
next
  case (AdvanceEnrollment i)
  have "map enrollment_id (fst (advanceEnrollment w i es)) = map enrollment_id es"
    unfolding advanceEnrollment_def
    by (rule map_world_ids) (simp add: Let_def split: option.splits)
  with AdvanceEnrollment show ?thesis by simp
next
  case (AdvanceToApproved i)
  have "map enrollment_id (fst (advanceToApproved w i es)) = map enrollment_id es"
    unfolding advanceToApproved_def by (rule map_world_ids) simp
  with AdvanceToApproved show ?thesis by simp
next
  case (RejectEnrollment i)
  have "map enrollment_id (rejectEnrollment i es) = map enrollment_id es"
    unfolding rejectEnrollment_def by (rule map_ids) simp
  with RejectEnrollment show ?thesis by simp
qed

lemma run_keeps:
  "\<exists>new. map enrollment_id (fst (run as (es, w))) = map enrollment_id es @ new"
proof (induction as arbitrary: es w)
  case Nil
  then show ?case by (simp add: run_def)
next
  case (Cons a as)
  obtain es1 w1 where p: "perform a (es, w) = (es1, w1)" by (cases "perform a (es, w)")
  from perform_keeps [of a es w] p obtain n1 where
    1: "map enrollment_id es1 = map enrollment_id es @ n1" by auto
  from Cons.IH [of es1 w1] obtain n2 where
    2: "map enrollment_id (fst (run as (es1, w1))) = map enrollment_id es1 @ n2" by auto
  from 1 2 p show ?case by (simp add: run_Cons)
qed

text \<open>
  Claim C7. \<open>enrollInCampaign\<close> returns the previous list followed by exactly one new
  record, whose status is enrolled, whose campaign is the given one and whose clicks,
  orders and earnings are zero. No sequence of operations and callback firings removes
  an enrollment: the ids of the list it starts from remain, in place, at the front of
  the list it ends with.
\<close>

theorem enrollInCampaign_appends_one:
  "(\<exists>n w'. enrollInCampaign w c prev = (prev @ [n], w') \<and> status n = ''enrolled'' \<and> campaign n = c
      \<and> clicks n = Some 0 \<and> orders n = Some 0 \<and> earnings n = Some 0)
   \<and> (\<exists>new. map enrollment_id (fst (run as (es, w0))) = map enrollment_id es @ new)"
  using enroll_appends [of w c prev] run_keeps [of as es w0] by blast

theorem enrollInCampaign_appends_one_witness:
  "length (fst (enrollInCampaign sample_world sample_campaign [sample_enrollment ''e1'' ''approved'' 5])) = 2
   \<and> take 1 (map enrollment_id (fst (run [EnrollInCampaign sample_campaign, RejectEnrollment ''e1'']
          ([sample_enrollment ''e1'' ''approved'' 5], sample_world)))) = [''e1'']"
proof -
  from enrollInCampaign_appends_one
         [of sample_world sample_campaign "[sample_enrollment ''e1'' ''approved'' 5]"
             "[EnrollInCampaign sample_campaign, RejectEnrollment ''e1'']"
             "[sample_enrollment ''e1'' ''approved'' 5]" sample_world]
  obtain n w' new where
    1: "enrollInCampaign sample_world sample_campaign [sample_enrollment ''e1'' ''approved'' 5]
          = ([sample_enrollment ''e1'' ''approved'' 5] @ [n], w')"
    and 2: "map enrollment_id (fst (run [EnrollInCampaign sample_campaign, RejectEnrollment ''e1'']
          ([sample_enrollment ''e1'' ''approved'' 5], sample_world)))
          = map enrollment_id [sample_enrollment ''e1'' ''approved'' 5] @ new"
    by blast
  from 1 2 show ?thesis by (simp add: sample_enrollment_def)
qed






lemma unit_draws_random: "unit_draws w \<Longrightarrow> unit_draws (snd (Math_random w))"
  by (simp add: unit_draws_def Math_random_def)

lemma unit_draws_now: "unit_draws w \<Longrightarrow> unit_draws (snd (Date_now w))"
  by (simp add: unit_draws_def Date_now_def)

lemma random_range: "unit_draws w \<Longrightarrow> 0 \<le> fst (Math_random w) \<and> fst (Math_random w) < 1"
  by (simp add: unit_draws_def Math_random_def)

lemma floor_scaled:
  fixes r :: real and k :: int
  assumes "0 \<le> r" "r < 1" "0 < k"
  shows "0 \<le> \<lfloor>r * of_int k\<rfloor> \<and> \<lfloor>r * of_int k\<rfloor> < k"
proof -
  have "0 \<le> r * of_int k" using assms by simp
  then have lo: "0 \<le> \<lfloor>r * of_int k\<rfloor>" by simp
  have "r * of_int k < 1 * of_int k" using assms by (intro mult_strict_right_mono) simp_all
  then have "r * of_int k < of_int k" by simp
  then have "\<lfloor>r * of_int k\<rfloor> < k" by (simp add: floor_less_iff)
  with lo show ?thesis by simp
qed

lemma digits_of_nonempty: "digits_of n \<noteq> []"
  by (subst digits_of.simps) simp

lemma approve_unit: "unit_draws w \<Longrightarrow> unit_draws (snd (approve kc ko ke w e))"
  by (simp add: approve_def split_beta Let_def unit_draws_random unit_draws_now)

lemma approve_statistics:
  assumes u: "unit_draws w" and k: "0 < kc" "kc \<le> 500" "0 < ko" "ko \<le> 50" "0 < ke" "ke \<le> 200"
  shows "approved_with_statistics (fst (approve kc ko ke w e))"
proof -
  let ?w1 = "snd (Math_random w)"
  let ?w2 = "snd (Math_random ?w1)"
  have u1: "unit_draws ?w1" and u2: "unit_draws ?w2"
    using u by (simp_all add: unit_draws_random)
  note r0 = random_range [OF u] and r1 = random_range [OF u1] and r2 = random_range [OF u2]
  from floor_scaled [OF conjunct1 [OF r0] conjunct2 [OF r0] k(1)] k(2)
  have c: "0 \<le> \<lfloor>fst (Math_random w) * of_int kc\<rfloor> \<and> \<lfloor>fst (Math_random w) * of_int kc\<rfloor> \<le> 499"
    by linarith
  from floor_scaled [OF conjunct1 [OF r1] conjunct2 [OF r1] k(3)] k(4)
  have d: "0 \<le> \<lfloor>fst (Math_random ?w1) * of_int ko\<rfloor> \<and> \<lfloor>fst (Math_random ?w1) * of_int ko\<rfloor> \<le> 49"
    by linarith
  from floor_scaled [OF conjunct1 [OF r2] conjunct2 [OF r2] k(5)] k(6)
  have g: "0 \<le> \<lfloor>fst (Math_random ?w2) * of_int ke\<rfloor> \<and> \<lfloor>fst (Math_random ?w2) * of_int ke\<rfloor> \<le> 199"
    by linarith
  show ?thesis
    using c d g by (simp add: approved_with_statistics_def approve_def split_beta Let_def)
qed

text \<open>
  Claim C10. With every random draw in \<open>[0, 1)\<close>: an enrollment that the second
  delayed callback changes, one that \<open>advanceEnrollment\<close> changes into approved, and
  one that \<open>advanceToApproved\<close> is given, is approved with a non-empty referral URL,
  clicks in 100..599, orders in 10..59, earnings in 50..249, and a stats record equal
  to these three counters.
\<close>

theorem approval_sets_statistics:
  assumes u: "unit_draws w" and i: "i < length prev"
  shows "(fst (submitForReview_after_8s w eid prev) ! i \<noteq> prev ! i \<longrightarrow>
            approved_with_statistics (fst (submitForReview_after_8s w eid prev) ! i))
       \<and> (status (fst (advanceEnrollment w eid prev) ! i) = ''approved''
            \<and> fst (advanceEnrollment w eid prev) ! i \<noteq> prev ! i \<longrightarrow>
            approved_with_statistics (fst (advanceEnrollment w eid prev) ! i))
       \<and> (enrollment_id (prev ! i) = eid \<longrightarrow>
            approved_with_statistics (fst (advanceToApproved w eid prev) ! i))"
proof -
  have a: "list_all2 (\<lambda>x y. y \<noteq> x \<longrightarrow> approved_with_statistics y) prev
             (fst (submitForReview_after_8s w eid prev))"
    unfolding submitForReview_after_8s_def
    by (rule map_world_rel [where I = unit_draws, THEN conjunct1, OF _ u])
       (simp add: approve_unit approve_statistics)
  have b: "list_all2 (\<lambda>x y. status y = ''approved'' \<and> y \<noteq> x \<longrightarrow> approved_with_statistics y) prev
             (fst (advanceEnrollment w eid prev))"
    unfolding advanceEnrollment_def
    by (rule map_world_rel [where I = unit_draws, THEN conjunct1, OF _ u])
       (simp add: approve_unit approve_statistics Let_def split: option.splits)
  have c: "list_all2 (\<lambda>x y. enrollment_id x = eid \<longrightarrow> approved_with_statistics y) prev
             (fst (advanceToApproved w eid prev))"
    unfolding advanceToApproved_def
    by (rule map_world_rel [where I = unit_draws, THEN conjunct1, OF _ u])
       (simp add: approve_unit approve_statistics)
  from list_all2_nthD [OF a i] list_all2_nthD [OF b i] list_all2_nthD [OF c i]
  show ?thesis by blast
qed

theorem approval_sets_statistics_witness:
  "unit_draws sample_world
   \<and> approved_with_statistics
        (fst (submitForReview_after_8s sample_world ''e1'' [sample_enrollment ''e1'' ''under-review'' 5]) ! 0)
   \<and> approved_with_statistics
        (fst (advanceEnrollment sample_world ''e1'' [sample_enrollment ''e1'' ''under-review'' 5]) ! 0)
   \<and> approved_with_statistics
        (fst (advanceToApproved sample_world ''e1'' [sample_enrollment ''e1'' ''rejected'' 5]) ! 0)"
proof -
  have u: "unit_draws sample_world"
    by (simp add: unit_draws_def sample_world_def)
  have a: "fst (submitForReview_after_8s sample_world ''e1'' [sample_enrollment ''e1'' ''under-review'' 5]) ! 0
            \<noteq> [sample_enrollment ''e1'' ''under-review'' 5] ! 0"
    by (simp add: submitForReview_after_8s_def sample_enrollment_def approve_def split_beta Let_def)
  have b: "status (fst (advanceEnrollment sample_world ''e1'' [sample_enrollment ''e1'' ''under-review'' 5]) ! 0)
            = ''approved''
         \<and> fst (advanceEnrollment sample_world ''e1'' [sample_enrollment ''e1'' ''under-review'' 5]) ! 0
            \<noteq> [sample_enrollment ''e1'' ''under-review'' 5] ! 0"
    by (simp add: advanceEnrollment_def sample_enrollment_def approve_def split_beta Let_def
          isTerminalState_def nextEnrollmentState_def)
  from approval_sets_statistics [OF u, of 0 "[sample_enrollment ''e1'' ''under-review'' 5]" "''e1''"]
       approval_sets_statistics [OF u, of 0 "[sample_enrollment ''e1'' ''rejected'' 5]" "''e1''"]
       u a b
  show ?thesis by (simp add: sample_enrollment_def)
qed

section \<open>Properties of the queries and of the display order\<close>

text \<open>
  Claim C4, as amended. When the query of an announcement-fetch function throws or
  reports an error, the function returns \<open>null\<close>. \<open>loadCampaigns\<close> leaves an empty
  campaign list, and \<open>isLoading\<close> false, when the connection test throws, or when
  \<open>fetchCampaigns\<close> throws or gives \<open>null\<close> or an empty array.
\<close>

theorem fetch_failure_gives_null:
  "(query_fails supabase announcments \<longrightarrow> fst (fetchAllAnnouncements supabase) = None)
   \<and> (query_fails supabase (announcments\<lparr>q_order := Some (''created_at'', False)\<rparr>)
         \<longrightarrow> fst (fetchAnnouncementsOrdered supabase) = None)
   \<and> (query_fails supabase (announcments\<lparr>q_select := ''id, merchant, discount, reward''\<rparr>)
         \<longrightarrow> fst (fetchAnnouncementsBasic supabase) = None)
   \<and> (query_fails supabase (announcments\<lparr>q_eq := [(''merchant'', m)]\<rparr>)
         \<longrightarrow> fst (fetchAnnouncementsByMerchant supabase m) = None)
   \<and> (query_fails supabase (announcments\<lparr>q_eq := [(''id'', i)], q_single := True\<rparr>)
         \<longrightarrow> fst (fetchAnnouncementById supabase i) = None)
   \<and> (fetched = Inl exn \<or> fetched = Inr None \<or> fetched = Inr (Some []) \<longrightarrow>
         fst (loadCampaigns tested fetched st) = \<lparr>campaignsList = [], isLoading = False\<rparr>)
   \<and> fst (loadCampaigns (Inl exn) fetched st) = \<lparr>campaignsList = [], isLoading = False\<rparr>"
proof -
  have a: "query_fails supabase announcments \<longrightarrow> fst (fetchAllAnnouncements supabase) = None"
    by (auto simp: query_fails_def fetchAllAnnouncements_def split: sum.splits option.splits)
  have b: "query_fails supabase (announcments\<lparr>q_order := Some (''created_at'', False)\<rparr>)
         \<longrightarrow> fst (fetchAnnouncementsOrdered supabase) = None"
    by (auto simp: query_fails_def fetchAnnouncementsOrdered_def split: sum.splits option.splits)
  have c: "query_fails supabase (announcments\<lparr>q_select := ''id, merchant, discount, reward''\<rparr>)
         \<longrightarrow> fst (fetchAnnouncementsBasic supabase) = None"
    by (auto simp: query_fails_def fetchAnnouncementsBasic_def split: sum.splits option.splits)
  have d: "query_fails supabase (announcments\<lparr>q_eq := [(''merchant'', m)]\<rparr>)
         \<longrightarrow> fst (fetchAnnouncementsByMerchant supabase m) = None"
    by (auto simp: query_fails_def fetchAnnouncementsByMerchant_def split: sum.splits option.splits)
  have e: "query_fails supabase (announcments\<lparr>q_eq := [(''id'', i)], q_single := True\<rparr>)
         \<longrightarrow> fst (fetchAnnouncementById supabase i) = None"
    by (auto simp: query_fails_def fetchAnnouncementById_def split: sum.splits option.splits)
  have f: "fetched = Inl exn \<or> fetched = Inr None \<or> fetched = Inr (Some []) \<longrightarrow>
         fst (loadCampaigns tested fetched st) = \<lparr>campaignsList = [], isLoading = False\<rparr>"
    by (auto simp: loadCampaigns_def Let_def split: sum.splits option.splits)
  have g: "fst (loadCampaigns (Inl exn) fetched st) = \<lparr>campaignsList = [], isLoading = False\<rparr>"
    by (simp add: loadCampaigns_def Let_def)
  from a b c d e f g show ?thesis by blast
qed

text \<open>
  Claim C4 as stated fails: on a reported error \<open>fetchAllAnnouncements\<close> returns
  \<open>null\<close>, which is not the empty list.
\<close>

theorem fetch_failure_not_empty_list:
  "fst (fetchAllAnnouncements (Some failing_database)) \<noteq> Some (Rows [])"
  by (simp add: fetchAllAnnouncements_def await_query_def failing_database_def)

theorem fetch_failure_gives_null_witness:
  "query_fails (Some failing_database) announcments
   \<and> fst (fetchAllAnnouncements (Some failing_database)) = None
   \<and> query_fails None (announcments\<lparr>q_eq := [(''merchant'', ''Cafe'')]\<rparr>)
   \<and> fst (fetchAnnouncementsByMerchant None ''Cafe'') = None
   \<and> fst (loadCampaigns (Inr True) (Inl NetworkError) sample_tab)
        = \<lparr>campaignsList = [], isLoading = False\<rparr>"
  using fetch_failure_gives_null [of "Some failing_database" "''Cafe''" "''a1''" "Inl NetworkError"
          NetworkError "Inr True" sample_tab]
        fetch_failure_gives_null [of None "''Cafe''" "''a1''" "Inl NetworkError"
          NetworkError "Inr True" sample_tab]
  by (simp add: query_fails_def await_query_def failing_database_def)

lemma mset_insert_by: "mset (insert_by cmp x ys) = add_mset x (mset ys)"
  by (induction ys) simp_all

lemma mset_array_sort: "mset (array_sort cmp xs) = mset xs"
  by (induction xs) (simp_all add: array_sort_def mset_insert_by)

lemma comes_first_shown:
  assumes "displayable a" "displayable b"
  shows "comes_first compareEnrollments a b \<longleftrightarrow> shown_before a b"
proof -
  obtain ta where ta: "enrolledAt a = ValidDate ta" using assms(1) by (cases "enrolledAt a") (auto simp: displayable_def)
  obtain tb where tb: "enrolledAt b = ValidDate tb" using assms(2) by (cases "enrolledAt b") (auto simp: displayable_def)
  have sa: "status a \<in> enrollment_statuses" and sb: "status b \<in> enrollment_statuses"
    using assms by (simp_all add: displayable_def)
  show ?thesis
    using sa sb unfolding enrollment_statuses_def
    by (auto simp: comes_first_def compareEnrollments_def js_minus_def statusPriority_def getTime_def
          shown_before_def display_rank_def ta tb Let_def)
qed

lemma shown_before_total: "displayable a \<Longrightarrow> displayable b \<Longrightarrow> shown_before a b \<or> shown_before b a"
  unfolding displayable_def enrollment_statuses_def shown_before_def display_rank_def
  by auto

lemma shown_before_trans: "shown_before a b \<Longrightarrow> shown_before b c \<Longrightarrow> shown_before a c"
  unfolding shown_before_def by (auto simp: display_rank_def split: if_splits)

lemma set_insert_by: "set (insert_by cmp x ys) = insert x (set ys)"
  by (induction ys) auto

lemma sorted_insert_by:
  assumes "displayable x" "\<forall>y\<in>set ys. displayable y" "sorted_wrt shown_before ys"
  shows "sorted_wrt shown_before (insert_by compareEnrollments x ys)"
  using assms
proof (induction ys)
  case Nil
  then show ?case by simp
next
  case (Cons y ys)
  show ?case
  proof (cases "comes_first compareEnrollments x y")
    case True
    with Cons.prems have xy: "shown_before x y" by (simp add: comes_first_shown)
    have "\<forall>z\<in>set ys. shown_before x z"
      using Cons.prems(3) xy shown_before_trans by auto
    with True xy Cons.prems(3) show ?thesis by simp
  next
    case False
    with Cons.prems have "\<not> shown_before x y" by (simp add: comes_first_shown)
    with shown_before_total [of x y] Cons.prems have yx: "shown_before y x" by auto
    from Cons have "sorted_wrt shown_before (insert_by compareEnrollments x ys)" by simp
    with False yx Cons.prems(3) show ?thesis by (simp add: set_insert_by)
  qed
qed

lemma sorted_array_sort:
  "\<forall>e\<in>set es. displayable e \<Longrightarrow> sorted_wrt shown_before (array_sort compareEnrollments es)"
proof (induction es)
  case Nil
  then show ?case by (simp add: array_sort_def)
next
  case (Cons e es)
  then have ih: "sorted_wrt shown_before (array_sort compareEnrollments es)" by simp
  have "\<forall>y\<in>set (array_sort compareEnrollments es). displayable y"
    using Cons.prems mset_array_sort [of compareEnrollments es] by (metis list.set_intros(2) set_mset_mset)
  with Cons.prems ih have "sorted_wrt shown_before (insert_by compareEnrollments e (array_sort compareEnrollments es))"
    by (intro sorted_insert_by) simp_all
  then show ?case by (simp add: array_sort_def)
qed

text \<open>
  Claim C9, as amended. The list the enrollments tab shows is a permutation of the
  enrollments it is given; when every status is one of the six and every date is valid
  it is ordered approved, under-review, processing, uploaded, enrolled, rejected, and
  within one status by later \<open>enrolledAt\<close> first.
\<close>

theorem sortedEnrollments_sorted_permutation:
  "mset (sortedEnrollments es) = mset es
   \<and> ((\<forall>e\<in>set es. displayable e) \<longrightarrow> sorted_wrt shown_before (sortedEnrollments es))"
  by (simp add: sortedEnrollments_def mset_array_sort sorted_array_sort)

text \<open>
  Claim C9 as stated fails: \<open>getTime()\<close> of an invalid date is NaN, and so is every
  difference the comparator forms with it. Of three enrolled enrollments given as dated
  1, undated, dated 5, the sort compares neighbours only, reads both NaN results as 0 and
  leaves the list as given: the enrollment dated 1 is shown before the one dated 5. The
  loader makes such an enrollment from a stored record without \<open>enrolledAt\<close>.
\<close>

theorem invalid_date_breaks_order:
  "sortedEnrollments
      [sample_enrollment ''a'' ''enrolled'' 1, undated_enrollment ''b'' ''enrolled'',
       sample_enrollment ''c'' ''enrolled'' 5]
     = [sample_enrollment ''a'' ''enrolled'' 1, undated_enrollment ''b'' ''enrolled'',
        sample_enrollment ''c'' ''enrolled'' 5]
   \<and> \<not> shown_before (sample_enrollment ''a'' ''enrolled'' 1) (sample_enrollment ''c'' ''enrolled'' 5)
   \<and> \<not> sorted_wrt shown_before (sortedEnrollments
      [sample_enrollment ''a'' ''enrolled'' 1, undated_enrollment ''b'' ''enrolled'',
       sample_enrollment ''c'' ''enrolled'' 5])
   \<and> (\<forall>engine. with_date engine (JObj [(''id'', JStr ''b''), (''status'', JStr ''enrolled'')])
         = Inr (JObj [(''id'', JStr ''b''), (''status'', JStr ''enrolled''),
                      (''enrolledAt'', JDate InvalidDate)]))"
proof -
  have s: "sortedEnrollments
      [sample_enrollment ''a'' ''enrolled'' 1, undated_enrollment ''b'' ''enrolled'',
       sample_enrollment ''c'' ''enrolled'' 5]
     = [sample_enrollment ''a'' ''enrolled'' 1, undated_enrollment ''b'' ''enrolled'',
        sample_enrollment ''c'' ''enrolled'' 5]"
    by (simp add: sortedEnrollments_def array_sort_def comes_first_def compareEnrollments_def
          js_minus_def statusPriority_def getTime_def sample_enrollment_def undated_enrollment_def
          Let_def)
  have n: "\<not> shown_before (sample_enrollment ''a'' ''enrolled'' 1) (sample_enrollment ''c'' ''enrolled'' 5)"
    by (simp add: shown_before_def sample_enrollment_def time_value_def)
  have l: "\<forall>engine. with_date engine (JObj [(''id'', JStr ''b''), (''status'', JStr ''enrolled'')])
         = Inr (JObj [(''id'', JStr ''b''), (''status'', JStr ''enrolled''),
                      (''enrolledAt'', JDate InvalidDate)])"
    by (simp add: with_date_def get_enrolledAt_def own_properties_def new_Date_def)
  from s n l show ?thesis by simp
qed

theorem sortedEnrollments_sorted_permutation_witness:
  "displayable (sample_enrollment ''a'' ''rejected'' 9)
   \<and> displayable (sample_enrollment ''b'' ''enrolled'' 1)
   \<and> displayable (sample_enrollment ''c'' ''approved'' 2)
   \<and> displayable (sample_enrollment ''d'' ''enrolled'' 3)
   \<and> sorted_wrt shown_before (sortedEnrollments
        [sample_enrollment ''a'' ''rejected'' 9, sample_enrollment ''b'' ''enrolled'' 1,
         sample_enrollment ''c'' ''approved'' 2, sample_enrollment ''d'' ''enrolled'' 3])
   \<and> map enrollment_id (sortedEnrollments
        [sample_enrollment ''a'' ''rejected'' 9, sample_enrollment ''b'' ''enrolled'' 1,
         sample_enrollment ''c'' ''approved'' 2, sample_enrollment ''d'' ''enrolled'' 3])
      = [''c'', ''d'', ''b'', ''a'']"
proof -
  have d: "displayable (sample_enrollment ''a'' ''rejected'' 9)"
     "displayable (sample_enrollment ''b'' ''enrolled'' 1)"
     "displayable (sample_enrollment ''c'' ''approved'' 2)"
     "displayable (sample_enrollment ''d'' ''enrolled'' 3)"
    by (simp_all add: displayable_def sample_enrollment_def enrollment_statuses_def)
  have m: "map enrollment_id (sortedEnrollments
        [sample_enrollment ''a'' ''rejected'' 9, sample_enrollment ''b'' ''enrolled'' 1,
         sample_enrollment ''c'' ''approved'' 2, sample_enrollment ''d'' ''enrolled'' 3])
      = [''c'', ''d'', ''b'', ''a'']"
    by (simp add: sortedEnrollments_def array_sort_def comes_first_def compareEnrollments_def
          js_minus_def statusPriority_def getTime_def sample_enrollment_def Let_def)
  from sortedEnrollments_sorted_permutation
         [of "[sample_enrollment ''a'' ''rejected'' 9, sample_enrollment ''b'' ''enrolled'' 1,
         sample_enrollment ''c'' ''approved'' 2, sample_enrollment ''d'' ''enrolled'' 3]"] d m
  show ?thesis by simp
qed

section \<open>Properties of the platform: digits and dates\<close>

lemma of_char_digit_char: "d < 10 \<Longrightarrow> (of_char (digit_char d) :: nat) = 48 + d"
  by (simp add: digit_char_def)

lemma is_digit_digit_char: "d < 10 \<Longrightarrow> is_digit (digit_char d)"
  by (simp add: is_digit_def of_char_digit_char)

lemma read_digits_append:
  "read_digits acc (xs @ ys) = (case read_digits acc xs of None \<Rightarrow> None | Some a \<Rightarrow> read_digits a ys)"
  by (induction xs arbitrary: acc) simp_all

lemma pad_0 [simp]: "pad 0 n = []"
  by (simp add: pad.simps)

lemma pad_Suc: "pad (Suc k) n = pad k (n div 10) @ [digit_char (n mod 10)]"
  by (subst pad.simps) simp

lemma length_pad [simp]: "length (pad k n) = k"
  by (induction k arbitrary: n) (simp_all add: pad_Suc)

lemma read_digits_pad: "n < 10 ^ k \<Longrightarrow> read_digits acc (pad k n) = Some (acc * 10 ^ k + n)"
proof (induction k arbitrary: n)
  case 0
  then show ?case by simp
next
  case (Suc k)
  from Suc.prems have "n div 10 < 10 ^ k" by (simp add: less_mult_imp_div_less mult.commute)
  from Suc.IH [OF this]
  have "read_digits acc (pad k (n div 10)) = Some (acc * 10 ^ k + n div 10)" .
  moreover have "10 * (acc * 10 ^ k + n div 10) + n mod 10 = acc * 10 ^ Suc k + n"
    by (simp add: algebra_simps)
  ultimately show ?case
    by (simp add: pad_Suc read_digits_append is_digit_digit_char of_char_digit_char)
qed

lemma take_digits_pad: "n < 10 ^ k \<Longrightarrow> take_digits k (pad k n @ rest) = Some (n, rest)"
  by (simp add: take_digits_def read_digits_pad)

lemma expect_Cons [simp]: "expect c (c # rest) = Some rest"
  by (simp add: expect_def)

lemma div_step:
  fixes x m :: int
  assumes m: "0 < m"
  shows "(x + 1) div m = x div m + (if (x + 1) mod m = 0 then 1 else 0)"
proof (cases "(x + 1) mod m = 0")
  case True
  then have "x + 1 = m * ((x + 1) div m)" by (metis mult_div_mod_eq add.right_neutral)
  then have "x = m * ((x + 1) div m - 1) + (m - 1)" by (simp add: algebra_simps)
  then have "x div m = (x + 1) div m - 1"
    using m by (intro int_div_pos_eq [where r = "m - 1"]) simp_all
  with True show ?thesis by simp
next
  case False
  let ?r = "(x + 1) mod m"
  have r: "0 < ?r" "?r < m" using False m pos_mod_sign [of m "x + 1"] pos_mod_bound [of m "x + 1"]
    by (simp_all add: less_le)
  have "x + 1 = m * ((x + 1) div m) + ?r" by simp
  then have "x = m * ((x + 1) div m) + (?r - 1)" by linarith
  then have "x div m = (x + 1) div m"
    using r by (intro int_div_pos_eq [where r = "?r - 1"]) simp_all
  with False show ?thesis by simp
qed

lemma mod_shift:
  "(y - 1968) mod 4 = (y::int) mod 4" "(y - 1900) mod 100 = y mod 100" "(y - 1600) mod 400 = y mod 400"
proof -
  have "(y + 4 * (- 492)) mod 4 = y mod 4" by (rule mod_mult_self2)
  then show "(y - 1968) mod 4 = y mod 4" by simp
  have "(y + 100 * (- 19)) mod 100 = y mod 100" by (rule mod_mult_self2)
  then show "(y - 1900) mod 100 = y mod 100" by simp
  have "(y + 400 * (- 4)) mod 400 = y mod 400" by (rule mod_mult_self2)
  then show "(y - 1600) mod 400 = y mod 400" by simp
qed

lemma mod_chain:
  fixes y :: int
  shows "y mod 400 = 0 \<Longrightarrow> y mod 100 = 0" and "y mod 100 = 0 \<Longrightarrow> y mod 4 = 0"
proof -
  assume "y mod 400 = 0"
  then have "400 dvd y" by (simp add: dvd_eq_mod_eq_0)
  moreover have "(100::int) dvd 400" by simp
  ultimately have "100 dvd y" by (rule dvd_trans [rotated])
  then show "y mod 100 = 0" by (simp add: dvd_eq_mod_eq_0)
next
  assume "y mod 100 = 0"
  then have "100 dvd y" by (simp add: dvd_eq_mod_eq_0)
  moreover have "(4::int) dvd 100" by simp
  ultimately have "4 dvd y" by (rule dvd_trans [rotated])
  then show "y mod 4 = 0" by (simp add: dvd_eq_mod_eq_0)
qed

lemma DayFromYear_Suc: "DayFromYear (y + 1) = DayFromYear y + DaysInYear y"
proof -
  have a: "(y + 1 - 1969) div 4 = (y - 1969) div 4 + (if y mod 4 = 0 then 1 else 0)"
    using div_step [of 4 "y - 1969"] mod_shift(1) [of y] by (simp add: algebra_simps)
  have b: "(y + 1 - 1901) div 100 = (y - 1901) div 100 + (if y mod 100 = 0 then 1 else 0)"
    using div_step [of 100 "y - 1901"] mod_shift(2) [of y] by (simp add: algebra_simps)
  have c: "(y + 1 - 1601) div 400 = (y - 1601) div 400 + (if y mod 400 = 0 then 1 else 0)"
    using div_step [of 400 "y - 1601"] mod_shift(3) [of y] by (simp add: algebra_simps)
  show ?thesis
    unfolding DayFromYear_def a b c DaysInYear_def
    using mod_chain [of y] by auto
qed

lemma find_year_up_bracket:
  "DayFromYear y \<le> d \<Longrightarrow>
   DayFromYear (find_year_up y d) \<le> d \<and> d < DayFromYear (find_year_up y d + 1)"
proof (induction y d rule: find_year_up.induct)
  case (1 y d)
  show ?case
  proof (cases "DayFromYear (y + 1) \<le> d")
    case True
    with "1.IH" show ?thesis by (subst (1 2) find_year_up.simps) simp
  next
    case False
    with "1.prems" show ?thesis by (subst (1 2) find_year_up.simps) simp
  qed
qed

lemma find_year_down_bracket:
  "d < DayFromYear (y + 1) \<Longrightarrow>
   DayFromYear (find_year_down y d) \<le> d \<and> d < DayFromYear (find_year_down y d + 1)"
proof (induction y d rule: find_year_down.induct)
  case (1 y d)
  show ?case
  proof (cases "d < DayFromYear y")
    case True
    with "1.IH" show ?thesis by (subst (1 2) find_year_down.simps) simp
  next
    case False
    with "1.prems" show ?thesis by (subst (1 2) find_year_down.simps) simp
  qed
qed

lemma YearFromDay_bracket:
  "DayFromYear (YearFromDay d) \<le> d \<and> d < DayFromYear (YearFromDay d + 1)"
proof (cases "0 \<le> d")
  case True
  have "DayFromYear 1970 = 0" by (simp add: DayFromYear_def)
  with True find_year_up_bracket [of 1970 d] show ?thesis by (simp add: YearFromDay_def)
next
  case False
  have "DayFromYear (1969 + 1) = 0" by (simp add: DayFromYear_def)
  with False find_year_down_bracket [of d 1969] show ?thesis by (simp add: YearFromDay_def)
qed

lemma div_bounds:
  fixes x m :: int
  assumes "0 < m"
  shows "m * (x div m) \<le> x" and "x < m * (x div m) + m"
proof -
  have "x = m * (x div m) + x mod m" by simp
  moreover have "0 \<le> x mod m" "x mod m < m" using assms by simp_all
  ultimately show "m * (x div m) \<le> x" and "x < m * (x div m) + m" by linarith+
qed

lemma DayFromYear_linear:
  "146097 * y - 287811596 \<le> 400 * DayFromYear y \<and> 400 * DayFromYear y \<le> 146097 * y - 287810501"
proof -
  define a where "a = (y - 1969) div 4"
  define b where "b = (y - 1901) div 100"
  define c where "c = (y - 1601) div 400"
  have a0: "4 * a \<le> y - 1969" "y - 1969 < 4 * a + 4"
    unfolding a_def by (rule div_bounds, simp)+
  have b0: "100 * b \<le> y - 1901" "y - 1901 < 100 * b + 100"
    unfolding b_def by (rule div_bounds, simp)+
  have c0: "400 * c \<le> y - 1601" "y - 1601 < 400 * c + 400"
    unfolding c_def by (rule div_bounds, simp)+
  have a1: "100 * y - 197200 \<le> 400 * a" using a0(2) by simp
  have a2: "400 * a \<le> 100 * y - 196900" using a0(1) by simp
  have b1: "4 * y - 8000 \<le> 400 * b" using b0(2) by simp
  have b2: "400 * b \<le> 4 * y - 7604" using b0(1) by simp
  have c1: "y - 2000 \<le> 400 * c" using c0(2) by simp
  have c2: "400 * c \<le> y - 1601" using c0(1) by simp
  have "400 * DayFromYear y = 146000 * y - 287620000 + 400 * a - 400 * b + 400 * c"
    by (simp add: DayFromYear_def a_def b_def c_def)
  with a1 a2 b1 b2 c1 c2 show ?thesis
    by simp
qed

lemma year_upper:
  assumes "DayFromYear y \<le> 100000000"
  shows "y < 1000000"
  using DayFromYear_linear [of y] assms by simp

lemma year_lower:
  assumes "- 100000000 \<le> d" "d < DayFromYear (y + 1)"
  shows "- 1000000 < y"
  using DayFromYear_linear [of "y + 1"] assms by simp

lemma month_bracket:
  assumes "0 \<le> dwy" "dwy < 365 + leap" "leap = 0 \<or> leap = 1"
  shows "0 \<le> MonthFromDay leap dwy \<and> MonthFromDay leap dwy \<le> 11
       \<and> month_start leap (MonthFromDay leap dwy) \<le> dwy
       \<and> dwy < month_start leap (MonthFromDay leap dwy + 1)"
  using assms unfolding MonthFromDay_def month_start_def by auto

lemma pad_hd: "0 < k \<Longrightarrow> \<exists>q cs. q < 10 \<and> pad k n = digit_char q # cs"
proof (induction k arbitrary: n)
  case 0
  then show ?case by simp
next
  case (Suc k)
  show ?case
  proof (cases "k = 0")
    case True
    have "n mod 10 < 10 \<and> pad (Suc k) n = digit_char (n mod 10) # []"
      using True by (simp add: pad_Suc)
    then show ?thesis by blast
  next
    case False
    with Suc.IH [of "n div 10"] obtain q cs where q: "q < 10" "pad k (n div 10) = digit_char q # cs"
      by auto
    then have "q < 10 \<and> pad (Suc k) n = digit_char q # (cs @ [digit_char (n mod 10)])"
      by (simp add: pad_Suc)
    then show ?thesis by blast
  qed
qed

lemma digit_char_not_sign:
  assumes "q < 10"
  shows "digit_char q \<noteq> CHR ''+''" and "digit_char q \<noteq> CHR ''-''"
proof -
  have q: "(of_char (digit_char q) :: nat) = 48 + q" using assms by (rule of_char_digit_char)
  show "digit_char q \<noteq> CHR ''+''"
  proof
    assume "digit_char q = CHR ''+''"
    then have "(of_char (digit_char q) :: nat) = of_char CHR ''+''" by simp
    with q show False by simp
  qed
  show "digit_char q \<noteq> CHR ''-''"
  proof
    assume "digit_char q = CHR ''-''"
    then have "(of_char (digit_char q) :: nat) = of_char CHR ''-''" by simp
    with q show False by simp
  qed
qed

lemma iso_sign_plus [simp]: "iso_sign (CHR ''+'' # s) = (1, True, s)"
  by (simp add: iso_sign_def)

lemma iso_sign_minus [simp]: "iso_sign (CHR ''-'' # s) = (- 1, True, s)"
  by (simp add: iso_sign_def)

lemma iso_sign_pad: "0 < k \<Longrightarrow> iso_sign (pad k n @ s) = (1, False, pad k n @ s)"
proof -
  assume "0 < k"
  from pad_hd [OF this, of n] obtain q cs where q: "q < 10" "pad k n = digit_char q # cs" by blast
  with digit_char_not_sign [OF q(1)] show ?thesis by (simp add: iso_sign_def)
qed

lemma parse_fields:
  assumes "mo < 100" "dd < 100" "hh < 100" "mi < 100" "ss < 100" "ms < 1000" "yy < 10 ^ k"
  shows "do {
          (yy, s1) \<leftarrow> take_digits k (pad k yy @ iso_tail mo dd hh mi ss ms);
          s2 \<leftarrow> expect CHR ''-'' s1;
          (mo, s3) \<leftarrow> take_digits 2 s2;
          s4 \<leftarrow> expect CHR ''-'' s3;
          (dd, s5) \<leftarrow> take_digits 2 s4;
          s6 \<leftarrow> expect CHR ''T'' s5;
          (hh, s7) \<leftarrow> take_digits 2 s6;
          s8 \<leftarrow> expect CHR '':'' s7;
          (mi, s9) \<leftarrow> take_digits 2 s8;
          s10 \<leftarrow> expect CHR '':'' s9;
          (ss, s11) \<leftarrow> take_digits 2 s10;
          s12 \<leftarrow> expect CHR ''.'' s11;
          (ms, s13) \<leftarrow> take_digits 3 s12;
          s14 \<leftarrow> expect CHR ''Z'' s13;
          iso_time sg yy mo dd hh mi ss ms s14
        } = iso_time sg yy mo dd hh mi ss ms []"
  using assms by (simp add: iso_tail_def take_digits_pad)

lemma parse_iso_four:
  assumes "mo < 100" "dd < 100" "hh < 100" "mi < 100" "ss < 100" "ms < 1000" "yy < 10000"
  shows "parse_iso (pad 4 yy @ iso_tail mo dd hh mi ss ms) = iso_time 1 yy mo dd hh mi ss ms []"
  using parse_fields [OF assms(1-6), of yy 4 1] assms(7)
  by (simp add: parse_iso_def iso_sign_pad)

lemma parse_iso_six:
  assumes "mo < 100" "dd < 100" "hh < 100" "mi < 100" "ss < 100" "ms < 1000" "yy < 1000000"
  shows "parse_iso (CHR ''+'' # pad 6 yy @ iso_tail mo dd hh mi ss ms) = iso_time 1 yy mo dd hh mi ss ms []"
    and "parse_iso (CHR ''-'' # pad 6 yy @ iso_tail mo dd hh mi ss ms) = iso_time (- 1) yy mo dd hh mi ss ms []"
  using parse_fields [OF assms(1-6), of yy 6 1] parse_fields [OF assms(1-6), of yy 6 "- 1"] assms(7)
  by (simp_all add: parse_iso_def)

lemma time_fields:
  fixes ms :: int
  assumes "0 \<le> ms" "ms < 86400000"
  shows "ms div 3600000 * 3600000 + ms div 60000 mod 60 * 60000 + ms div 1000 mod 60 * 1000
           + ms mod 1000 = ms"
    and "0 \<le> ms div 3600000" "ms div 3600000 < 24"
    and "0 \<le> ms div 60000 mod 60" "ms div 60000 mod 60 < 60"
    and "0 \<le> ms div 1000 mod 60" "ms div 1000 mod 60 < 60"
    and "0 \<le> ms mod 1000" "ms mod 1000 < 1000"
proof -
  have s: "ms div 60000 = ms div 1000 div 60"
    using zdiv_zmult2_eq [of 60 ms 1000] by simp
  have h: "ms div 3600000 = ms div 60000 div 60"
    using zdiv_zmult2_eq [of 60 ms 60000] by simp
  have 1: "ms = ms div 1000 * 1000 + ms mod 1000" by simp
  have 2: "ms div 1000 = ms div 60000 * 60 + ms div 1000 mod 60" by (simp add: s)
  have 3: "ms div 60000 = ms div 3600000 * 60 + ms div 60000 mod 60" by (simp add: h)
  from 1 2 3 show "ms div 3600000 * 3600000 + ms div 60000 mod 60 * 60000 + ms div 1000 mod 60 * 1000
           + ms mod 1000 = ms" by linarith
  show "0 \<le> ms div 3600000" using assms by (simp add: pos_imp_zdiv_nonneg_iff)
  show "ms div 3600000 < 24"
  proof -
    have "ms < 24 * 3600000" using assms by simp
    then show ?thesis using div_bounds(1) [of 3600000 ms] by simp
  qed
  show "0 \<le> ms div 60000 mod 60" "ms div 60000 mod 60 < 60" by simp_all
  show "0 \<le> ms div 1000 mod 60" "ms div 1000 mod 60 < 60" by simp_all
  show "0 \<le> ms mod 1000" "ms mod 1000 < 1000" by simp_all
qed

lemma iso_time_ok:
  assumes "y = sg * int yy" "sg = 1 \<or> (sg = - 1 \<and> yy \<noteq> 0)" "1 \<le> mo" "mo \<le> 12" "1 \<le> dd"
    and "int dd \<le> DaysInMonth y (int mo)" "hh \<le> 23" "mi \<le> 59" "ss \<le> 59"
  shows "iso_time sg yy mo dd hh mi ss ms [] =
           Some (MakeDay y (int mo) (int dd) * msPerDay
                 + int hh * 3600000 + int mi * 60000 + int ss * 1000 + int ms)"
  using assms by (auto simp: iso_time_def Let_def)

lemma month_length:
  assumes "0 \<le> m" "m \<le> 11" "leap = 0 \<or> leap = 1"
  shows "month_start leap (m + 1) - month_start leap m \<le> 31"
proof -
  from assms(1,2) have "m = 0 \<or> m = 1 \<or> m = 2 \<or> m = 3 \<or> m = 4 \<or> m = 5 \<or> m = 6 \<or> m = 7
      \<or> m = 8 \<or> m = 9 \<or> m = 10 \<or> m = 11" by presburger
  with assms(3) show ?thesis unfolding month_start_def by auto
qed

lemma Day_range:
  assumes "\<bar>t\<bar> \<le> 8640000000000000"
  shows "- 100000000 \<le> Day t" "Day t \<le> 100000000"
proof -
  have a: "86400000 * (t div 86400000) \<le> t" "t < 86400000 * (t div 86400000) + 86400000"
    by (rule div_bounds, simp)+
  from assms have "- 8640000000000000 \<le> t" "t \<le> 8640000000000000" by linarith+
  with a show "- 100000000 \<le> Day t" "Day t \<le> 100000000"
    unfolding Day_def msPerDay_def by simp_all
qed

lemma toISOString_shape:
  "toISOString (ValidDate t) =
     Inr (year_string (YearFromDay (Day t))
          @ iso_tail
              (nat (MonthFromDay (InLeapYear (YearFromDay (Day t)))
                      (Day t - DayFromYear (YearFromDay (Day t))) + 1))
              (nat (Day t - DayFromYear (YearFromDay (Day t))
                    - month_start (InLeapYear (YearFromDay (Day t)))
                        (MonthFromDay (InLeapYear (YearFromDay (Day t)))
                           (Day t - DayFromYear (YearFromDay (Day t)))) + 1))
              (nat (TimeWithinDay t div 3600000))
              (nat (TimeWithinDay t div 60000 mod 60))
              (nat (TimeWithinDay t div 1000 mod 60))
              (nat (TimeWithinDay t mod 1000)))"
  by (simp add: toISOString_def Let_def iso_tail_def)

lemma iso_roundtrip:
  assumes r: "\<bar>t\<bar> \<le> 8640000000000000"
  shows "\<exists>s. toISOString (ValidDate t) = Inr s \<and> parse_iso s = Some t"
proof -
  define d where "d = Day t"
  define y where "y = YearFromDay d"
  define leap where "leap = InLeapYear y"
  define dwy where "dwy = d - DayFromYear y"
  define m where "m = MonthFromDay leap dwy"
  define dd where "dd = dwy - month_start leap m + 1"
  define ms where "ms = TimeWithinDay t"
  define hh where "hh = ms div 3600000"
  define mi where "mi = ms div 60000 mod 60"
  define ss where "ss = ms div 1000 mod 60"
  define ml where "ml = ms mod 1000"
  have t: "t = d * msPerDay + ms"
    by (simp add: d_def ms_def Day_def TimeWithinDay_def)
  have ms: "0 \<le> ms" "ms < 86400000"
    by (simp_all add: ms_def TimeWithinDay_def msPerDay_def)
  note tf = time_fields [OF ms, folded hh_def mi_def ss_def ml_def]
  have d: "- 100000000 \<le> d" "d \<le> 100000000"
    using Day_range [OF r] by (simp_all add: d_def)
  have br: "DayFromYear y \<le> d" "d < DayFromYear (y + 1)"
    using YearFromDay_bracket [of d] by (simp_all add: y_def)
  have leap: "leap = 0 \<or> leap = 1" and diy: "DaysInYear y = 365 + leap"
    by (auto simp: leap_def InLeapYear_def DaysInYear_def)
  have dwy: "0 \<le> dwy" "dwy < 365 + leap"
    using br DayFromYear_Suc [of y] diy by (simp_all add: dwy_def)
  from month_bracket [OF dwy leap]
  have m: "0 \<le> m" "m \<le> 11" "month_start leap m \<le> dwy" "dwy < month_start leap (m + 1)"
    by (simp_all add: m_def)
  have dd: "1 \<le> dd" "dd \<le> DaysInMonth y (m + 1)"
    using m by (simp_all add: dd_def DaysInMonth_def leap_def [symmetric])
  have dd100: "dd < 100"
    using dd(2) month_length [OF m(1,2) leap] by (simp add: DaysInMonth_def leap_def [symmetric])
  have yr: "- 1000000 < y" "y < 1000000"
    using year_lower [OF d(1) br(2)] year_upper [of y] br(1) d(2) by simp_all
  have day: "MakeDay y (m + 1) dd = d"
    by (simp add: MakeDay_def dd_def dwy_def leap_def)
  have shape: "toISOString (ValidDate t) =
      Inr (year_string y @ iso_tail (nat (m + 1)) (nat dd) (nat hh) (nat mi) (nat ss) (nat ml))"
    unfolding toISOString_shape
    by (simp add: d_def y_def leap_def dwy_def m_def dd_def ms_def hh_def mi_def ss_def ml_def)
  have bounds: "nat (m + 1) < 100" "nat dd < 100" "nat hh < 100" "nat mi < 100" "nat ss < 100"
      "nat ml < 1000"
    using m dd100 tf by simp_all
  have total: "MakeDay y (int (nat (m + 1))) (int (nat dd)) * msPerDay
                 + int (nat hh) * 3600000 + int (nat mi) * 60000 + int (nat ss) * 1000 + int (nat ml) = t"
    using m dd tf day t by simp
  have fields: "1 \<le> nat (m + 1)" "nat (m + 1) \<le> 12" "1 \<le> nat dd"
      "int (nat dd) \<le> DaysInMonth y (int (nat (m + 1)))" "nat hh \<le> 23" "nat mi \<le> 59" "nat ss \<le> 59"
    using m dd tf by simp_all
  have "parse_iso (year_string y @ iso_tail (nat (m + 1)) (nat dd) (nat hh) (nat mi) (nat ss) (nat ml))
          = Some t"
  proof (cases "0 \<le> y \<and> y \<le> 9999")
    case True
    then have ys: "year_string y = pad 4 (nat y)" by (simp add: year_string_def)
    have "nat y < 10000" using True by linarith
    from parse_iso_four [OF bounds this]
    have "parse_iso (pad 4 (nat y) @ iso_tail (nat (m + 1)) (nat dd) (nat hh) (nat mi) (nat ss) (nat ml))
            = iso_time 1 (nat y) (nat (m + 1)) (nat dd) (nat hh) (nat mi) (nat ss) (nat ml) []" .
    also have "\<dots> = Some t"
      using iso_time_ok [of y 1 "nat y", OF _ _ fields] True total by simp
    finally show ?thesis by (simp add: ys)
  next
    case False
    show ?thesis
    proof (cases "y < 0")
      case True
      then have ys: "year_string y = CHR ''-'' # pad 6 (nat \<bar>y\<bar>)" by (simp add: year_string_def)
      have "nat \<bar>y\<bar> < 1000000" using yr by linarith
      from parse_iso_six(2) [OF bounds this]
      have "parse_iso (CHR ''-'' # pad 6 (nat \<bar>y\<bar>) @ iso_tail (nat (m + 1)) (nat dd) (nat hh) (nat mi) (nat ss) (nat ml))
            = iso_time (- 1) (nat \<bar>y\<bar>) (nat (m + 1)) (nat dd) (nat hh) (nat mi) (nat ss) (nat ml) []" .
      also have "\<dots> = Some t"
        using iso_time_ok [of y "- 1" "nat \<bar>y\<bar>", OF _ _ fields] True total by simp
      finally show ?thesis by (simp add: ys)
    next
      case nonneg: False
      with False have big: "9999 < y" by simp
      then have ys: "year_string y = CHR ''+'' # pad 6 (nat \<bar>y\<bar>)" by (simp add: year_string_def)
      have "nat \<bar>y\<bar> < 1000000" using yr by linarith
      from parse_iso_six(1) [OF bounds this]
      have "parse_iso (CHR ''+'' # pad 6 (nat \<bar>y\<bar>) @ iso_tail (nat (m + 1)) (nat dd) (nat hh) (nat mi) (nat ss) (nat ml))
            = iso_time 1 (nat \<bar>y\<bar>) (nat (m + 1)) (nat dd) (nat hh) (nat mi) (nat ss) (nat ml) []" .
      also have "\<dots> = Some t"
        using iso_time_ok [of y 1 "nat \<bar>y\<bar>", OF _ _ fields] big total by simp
      finally show ?thesis by (simp add: ys)
    qed
  qed
  with shape show ?thesis by simp
qed

section \<open>Properties of the platform: JSON text\<close>

lemma char_of_of_char_nat: "char_of (of_char c :: nat) = c"
  by simp

lemma char_eq_code: "(of_char c :: nat) = of_char d \<Longrightarrow> c = d"
  by (metis char_of_of_char_nat)

lemma hex_val_hex_char: "d < 16 \<Longrightarrow> hex_val (hex_char d) = Some d"
  by (auto simp: hex_val_def hex_char_def Let_def)

lemma hex_val_zero: "hex_val CHR ''0'' = Some 0"
  by (simp add: hex_val_def)

lemma and_then_Some [simp]: "and_then c (Some (str, rest)) = Some (c # str, rest)"
  by (simp add: and_then_def)

lemma parse_quote_char:
  "parse_chars (quote_char c @ tail) = and_then c (parse_chars tail)"
proof -
  define n where "n = (of_char c :: nat)"
  have c: "c = char_of n" by (simp add: n_def)
  have n256: "n < 256" by (simp add: n_def)
  consider "n = 8" | "n = 9" | "n = 10" | "n = 12" | "n = 13" | "n = 34" | "n = 92"
    | "n < 32" "n \<noteq> 8" "n \<noteq> 9" "n \<noteq> 10" "n \<noteq> 12" "n \<noteq> 13"
    | "32 \<le> n" "n \<noteq> 34" "n \<noteq> 92"
    by linarith
  then show ?thesis
  proof cases
    case 1
    then have "(of_char c :: nat) = of_char (CHR 0x08)" by (simp add: n_def)
    then have "c = CHR 0x08" by (rule char_eq_code)
    then show ?thesis
      by (simp add: quote_char_def dquote_def backslash_def unescape_def)
  next
    case 2
    then have "(of_char c :: nat) = of_char (CHR 0x09)" by (simp add: n_def)
    then have "c = CHR 0x09" by (rule char_eq_code)
    then show ?thesis
      by (simp add: quote_char_def dquote_def backslash_def unescape_def)
  next
    case 3
    then have "(of_char c :: nat) = of_char (CHR 0x0A)" by (simp add: n_def)
    then have "c = CHR 0x0A" by (rule char_eq_code)
    then show ?thesis
      by (simp add: quote_char_def dquote_def backslash_def unescape_def)
  next
    case 4
    then have "(of_char c :: nat) = of_char (CHR 0x0C)" by (simp add: n_def)
    then have "c = CHR 0x0C" by (rule char_eq_code)
    then show ?thesis
      by (simp add: quote_char_def dquote_def backslash_def unescape_def)
  next
    case 5
    then have "(of_char c :: nat) = of_char (CHR 0x0D)" by (simp add: n_def)
    then have "c = CHR 0x0D" by (rule char_eq_code)
    then show ?thesis
      by (simp add: quote_char_def dquote_def backslash_def unescape_def)
  next
    case 6
    then have "(of_char c :: nat) = of_char (CHR 0x22)" by (simp add: n_def)
    then have "c = CHR 0x22" by (rule char_eq_code)
    then show ?thesis
      by (simp add: quote_char_def dquote_def backslash_def unescape_def)
  next
    case 7
    then have "(of_char c :: nat) = of_char (CHR 0x5C)" by (simp add: n_def)
    then have "c = CHR 0x5C" by (rule char_eq_code)
    then show ?thesis
      by (simp add: quote_char_def dquote_def backslash_def unescape_def)
  next
    case 8
    have q: "quote_char c = [backslash, CHR ''u'', CHR ''0'', CHR ''0'', hex_char (n div 16), hex_char (n mod 16)]"
      using 8 by (simp add: quote_char_def n_def [symmetric])
    have h: "hex_val (hex_char (n div 16)) = Some (n div 16)" "hex_val (hex_char (n mod 16)) = Some (n mod 16)"
      using 8(1) by (simp_all add: hex_val_hex_char)
    have code: "((0 * 16 + 0) * 16 + n div 16) * 16 + n mod 16 = n" by simp
    show ?thesis
      unfolding q using h hex_val_zero n256 code
      by (simp add: dquote_def backslash_def c [symmetric])
  next
    case 9
    have q: "quote_char c = [c]" using 9 by (simp add: quote_char_def n_def [symmetric])
    have "c \<noteq> dquote" "c \<noteq> backslash"
      using 9 by (auto simp: n_def dquote_def backslash_def)
    then show ?thesis using 9(1) by (simp add: q n_def)
  qed
qed

lemma parse_chars_quoted:
  "parse_chars (concat (map quote_char s) @ dquote # rest) = Some (s, rest)"
  by (induction s) (simp_all add: parse_quote_char)

lemma digits_of_digits: "c \<in> set (digits_of n) \<Longrightarrow> is_digit c"
proof (induction n arbitrary: c rule: digits_of.induct)
  case (1 n)
  show ?case
  proof (cases "n < 10")
    case True
    with "1.prems" show ?thesis
      by (subst (asm) digits_of.simps) (simp add: is_digit_digit_char)
  next
    case False
    with "1.prems" have "c \<in> set (digits_of (n div 10)) \<or> c = digit_char (n mod 10)"
      by (subst (asm) digits_of.simps) auto
    with "1.IH" [OF False] show ?thesis
      by (auto simp: is_digit_digit_char)
  qed
qed

lemma digits_of_not_empty: "digits_of n \<noteq> []"
  by (subst digits_of.simps) simp

lemma read_digits_of: "read_digits 0 (digits_of n) = Some n"
proof (induction n rule: digits_of.induct)
  case (1 n)
  show ?case
  proof (cases "n < 10")
    case True
    then show ?thesis
      by (subst digits_of.simps) (simp add: is_digit_digit_char of_char_digit_char)
  next
    case False
    with "1.IH" have "read_digits 0 (digits_of (n div 10)) = Some (n div 10)" by simp
    with False show ?thesis
      by (subst digits_of.simps)
         (simp add: read_digits_append is_digit_digit_char of_char_digit_char)
  qed
qed

lemma digit_char_zero: "d < 10 \<Longrightarrow> digit_char d = CHR ''0'' \<Longrightarrow> d = 0"
proof -
  assume "d < 10" "digit_char d = CHR ''0''"
  then have "(of_char (digit_char d) :: nat) = of_char CHR ''0''" by simp
  with \<open>d < 10\<close> show "d = 0" by (simp add: of_char_digit_char)
qed

lemma digits_of_leading: "0 < n \<Longrightarrow> hd (digits_of n) \<noteq> CHR ''0''"
proof (induction n rule: digits_of.induct)
  case (1 n)
  show ?case
  proof (cases "n < 10")
    case True
    with "1.prems" digit_char_zero [of n] show ?thesis
      by (subst digits_of.simps) auto
  next
    case False
    then have "0 < n div 10" by simp
    with "1.IH" [OF False] have "hd (digits_of (n div 10)) \<noteq> CHR ''0''" by simp
    with False digits_of_not_empty [of "n div 10"] show ?thesis
      by (subst digits_of.simps) simp
  qed
qed

lemma digits_of_zero: "digits_of 0 = ''0''"
proof -
  have "(of_char (digit_char 0) :: nat) = of_char CHR ''0''" by (simp add: of_char_digit_char)
  then have "digit_char 0 = CHR ''0''" by (rule char_eq_code)
  then show ?thesis by (subst digits_of.simps) simp
qed

lemma digits_of_no_leading_zero: "\<not> (1 < length (digits_of n) \<and> hd (digits_of n) = CHR ''0'')"
  by (cases "n = 0") (simp_all add: digits_of_zero digits_of_leading)

lemma follows_not_digit:
  assumes "follows rest"
  shows "takeWhile is_digit rest = []" and "dropWhile is_digit rest = rest"
    and "\<not> (rest \<noteq> [] \<and> (hd rest = CHR ''.'' \<or> hd rest = CHR ''e'' \<or> hd rest = CHR ''E''))"
  using assms by (cases rest; auto simp: follows_def is_digit_def)+

lemma parse_digits_of:
  assumes "follows rest"
  shows "takeWhile is_digit (digits_of n @ rest) = digits_of n"
    and "dropWhile is_digit (digits_of n @ rest) = rest"
  using follows_not_digit [OF assms] digits_of_digits [of _ n]
  by (simp_all add: takeWhile_append2 dropWhile_append2)

lemma digits_of_hd: "\<exists>q cs. q < 10 \<and> digits_of n = digit_char q # cs"
proof (induction n rule: digits_of.induct)
  case (1 n)
  show ?case
  proof (cases "n < 10")
    case True
    then have "n < 10 \<and> digits_of n = digit_char n # []" by (subst digits_of.simps) simp
    then show ?thesis by blast
  next
    case False
    with "1.IH" obtain q cs where "q < 10" "digits_of (n div 10) = digit_char q # cs" by blast
    with False have "q < 10 \<and> digits_of n = digit_char q # (cs @ [digit_char (n mod 10)])"
      by (subst digits_of.simps) simp
    then show ?thesis by blast
  qed
qed

lemma number_digits_of:
  assumes "follows rest"
  shows "number_digits neg (digits_of n @ rest) = Some (if neg then - int n else int n, rest)"
  unfolding number_digits_def parse_digits_of(1) [OF assms] parse_digits_of(2) [OF assms] Let_def
  using follows_not_digit(3) [OF assms] digits_of_not_empty [of n] digits_of_no_leading_zero [of n]
  by (simp add: read_digits_of)

lemma parse_number_show_int:
  assumes "follows rest"
  shows "parse_number (show_int i @ rest) = Some (i, rest)"
proof (cases "i < 0")
  case True
  then have "number_sign (show_int i @ rest) = (True, digits_of (nat (- i)) @ rest)"
    by (simp add: show_int_def number_sign_def)
  then show ?thesis
    using True by (simp add: parse_number_def number_digits_of [OF assms])
next
  case False
  obtain q cs where q: "q < 10" "digits_of (nat i) = digit_char q # cs"
    using digits_of_hd by blast
  have "number_sign (show_int i @ rest) = (False, digits_of (nat i) @ rest)"
    using False q digit_char_not_sign(2) [OF q(1)] by (simp add: show_int_def number_sign_def)
  then show ?thesis
    using False by (simp add: parse_number_def number_digits_of [OF assms])
qed

lemma serialize_plain: "plain v \<Longrightarrow> SerializeJSONProperty v = Some (json_text v)"
  by (cases v) (simp_all add: json_text_def)

lemma json_text_simps:
  "json_text JNull = ''null''"
  "json_text (JBool True) = ''true''"
  "json_text (JBool False) = ''false''"
  "json_text (JNum i) = show_int i"
  "json_text (JStr s) = QuoteJSONString s"
  "json_text (JArr vs) = CHR ''['' # commas (map json_text vs) @ '']''"
  by (simp_all add: json_text_def cong: map_cong)

lemma json_text_obj:
  assumes "list_all (\<lambda>p. plain (snd p)) ps"
  shows "json_text (JObj ps) = CHR ''{'' # commas (map member_text ps) @ ''}''"
proof -
  have "concat (map (\<lambda>p. case SerializeJSONProperty (snd p) of None \<Rightarrow> []
                          | Some t \<Rightarrow> [QuoteJSONString (fst p) @ CHR '':'' # t]) ps)
        = map member_text ps"
    using assms by (induction ps) (simp_all add: member_text_def serialize_plain)
  then show ?thesis by (simp add: json_text_def)
qed

lemma sign_or_digit:
  assumes "c = CHR ''-'' \<or> is_digit c"
  shows "\<not> is_ws c" "c \<noteq> CHR ''n''" "c \<noteq> CHR ''t''" "c \<noteq> CHR ''f''" "c \<noteq> dquote"
    "c \<noteq> CHR ''[''" "c \<noteq> CHR ''{''" "c \<noteq> CHR '']''" "c \<noteq> CHR ''}''"
  using assms by (auto simp: is_digit_def is_ws_def dquote_def)

lemma show_int_start: "\<exists>c cs. show_int i = c # cs \<and> (c = CHR ''-'' \<or> is_digit c)"
proof (cases "i < 0")
  case True
  then show ?thesis by (simp add: show_int_def)
next
  case False
  obtain q cs where q: "q < 10" "digits_of (nat i) = digit_char q # cs"
    using digits_of_hd by blast
  with False show ?thesis by (simp add: show_int_def is_digit_digit_char)
qed

lemma skip_ws_Cons: "\<not> is_ws c \<Longrightarrow> skip_ws (c # cs) = c # cs"
  by (simp add: skip_ws_def)

lemma skip_ws_follows: "follows rest \<Longrightarrow> skip_ws rest = rest"
  by (cases rest) (auto simp: follows_def skip_ws_def is_ws_def)

lemma parse_value_null: "parse_value (Suc n) (''null'' @ rest) = Some (JNull, rest)"
  by (simp add: skip_ws_def is_ws_def literal_def)

lemma parse_value_true: "parse_value (Suc n) (''true'' @ rest) = Some (JBool True, rest)"
  by (simp add: skip_ws_def is_ws_def literal_def)

lemma parse_value_false: "parse_value (Suc n) (''false'' @ rest) = Some (JBool False, rest)"
  by (simp add: skip_ws_def is_ws_def literal_def)

lemma parse_value_string: "parse_value (Suc n) (QuoteJSONString s @ rest) = Some (JStr s, rest)"
  by (simp add: QuoteJSONString_def skip_ws_def is_ws_def dquote_def parse_chars_quoted [unfolded dquote_def])

lemma parse_value_number:
  assumes "follows rest"
  shows "parse_value (Suc n) (show_int i @ rest) = Some (JNum i, rest)"
proof -
  obtain c cs where c: "show_int i = c # cs" "c = CHR ''-'' \<or> is_digit c"
    using show_int_start by blast
  have "parse_number (c # cs @ rest) = Some (i, rest)"
    using parse_number_show_int [OF assms, of i] c(1) by simp
  then show ?thesis
    using sign_or_digit [OF c(2)] by (simp add: c(1) skip_ws_Cons)
qed

lemma parse_value_empty_array: "parse_value (Suc n) (''[]'' @ rest) = Some (JArr [], rest)"
  by (simp add: skip_ws_def is_ws_def dquote_def)

lemma parse_value_empty_object: "parse_value (Suc n) (''{}'' @ rest) = Some (JObj [], rest)"
  by (simp add: skip_ws_def is_ws_def dquote_def)

lemma parse_value_array:
  assumes "value_start c"
  shows "parse_value (Suc n) (CHR ''['' # c # cs) =
           (case parse_elements n (c # cs) of None \<Rightarrow> None | Some (vs, r) \<Rightarrow> Some (JArr vs, r))"
  using assms by (simp add: skip_ws_def is_ws_def dquote_def value_start_def)

lemma parse_value_object:
  assumes "value_start c"
  shows "parse_value (Suc n) (CHR ''{'' # c # cs) =
           (case parse_members n (c # cs) of None \<Rightarrow> None
            | Some (ps, r) \<Rightarrow> Some (JObj (fold (\<lambda>p. set_property (fst p) (snd p)) ps []), r))"
  using assms by (simp add: skip_ws_def is_ws_def dquote_def value_start_def)

lemma commas_Cons: "xs \<noteq> [] \<Longrightarrow> commas (x # xs) = x @ CHR '','' # commas xs"
  by (cases xs) simp_all

lemma plain_start: "plain v \<Longrightarrow> \<exists>c cs. json_text v = c # cs \<and> value_start c"
proof (cases v)
  case (JNum i)
  obtain c cs where c: "show_int i = c # cs" "c = CHR ''-'' \<or> is_digit c"
    using show_int_start by blast
  with sign_or_digit [OF c(2)] JNum show ?thesis
    by (simp add: json_text_simps value_start_def)
next
  case (JBool b)
  then show ?thesis by (cases b) (simp_all add: json_text_simps value_start_def is_ws_def)
next
  case (JObj ps)
  then show ?thesis by (simp add: json_text_def value_start_def is_ws_def)
qed (simp_all add: json_text_simps value_start_def is_ws_def QuoteJSONString_def dquote_def)

lemma commas_start:
  assumes "vs \<noteq> []" "\<And>v. v \<in> set vs \<Longrightarrow> \<exists>c cs. f v = c # cs \<and> value_start c"
  shows "\<exists>c cs. commas (map f vs) = c # cs \<and> value_start c"
proof (cases vs)
  case Nil
  with assms(1) show ?thesis by simp
next
  case (Cons v vs')
  from assms(2) [of v] Cons obtain c cs where c: "f v = c # cs" "value_start c" by auto
  show ?thesis
  proof (cases vs')
    case Nil
    with Cons c show ?thesis by simp
  next
    case (Cons w ws)
    with \<open>vs = v # vs'\<close> c show ?thesis by simp
  qed
qed

lemma parse_elements_text:
  assumes "vs \<noteq> []"
    and "\<And>v n rest. v \<in> set vs \<Longrightarrow> follows rest \<Longrightarrow> length (json_text v) < n \<Longrightarrow>
           parse_value n (json_text v @ rest) = Some (v, rest)"
    and "length (commas (map json_text vs)) + 1 < n"
  shows "parse_elements n (commas (map json_text vs) @ CHR '']'' # rest) = Some (vs, rest)"
  using assms
proof (induction vs arbitrary: n rule: list_nonempty_induct)
  case (single v)
  from single.prems(2) obtain m where n: "n = Suc m" by (cases n) auto
  have f: "follows (CHR '']'' # rest)" by (simp add: follows_def)
  have "length (json_text v) < m" using single.prems(2) n by simp
  from single.prems(1) [OF _ f this]
  have "parse_value m (json_text v @ CHR '']'' # rest) = Some (v, CHR '']'' # rest)" by simp
  then show ?case by (simp add: n skip_ws_follows [OF f])
next
  case (cons v vs)
  from cons.prems(2) obtain m where n: "n = Suc m" by (cases n) auto
  have t: "commas (json_text v # map json_text vs) = json_text v @ CHR '','' # commas (map json_text vs)"
    using cons.hyps by (simp add: commas_Cons)
  have f: "follows (CHR '','' # commas (map json_text vs) @ CHR '']'' # rest)"
    by (simp add: follows_def)
  have "length (json_text v) < m" using cons.prems(2) n t by simp
  from cons.prems(1) [OF _ f this]
  have 1: "parse_value m (json_text v @ CHR '','' # commas (map json_text vs) @ CHR '']'' # rest)
             = Some (v, CHR '','' # commas (map json_text vs) @ CHR '']'' # rest)" by simp
  have "length (commas (map json_text vs)) + 1 < m" using cons.prems(2) n t by simp
  with cons.IH [of m] cons.prems(1)
  have 2: "parse_elements m (commas (map json_text vs) @ CHR '']'' # rest) = Some (vs, rest)"
    by simp
  show ?case using 1 2 by (simp add: n t skip_ws_follows [OF f])
qed

lemma parse_members_text:
  assumes "ps \<noteq> []"
    and "\<And>p n rest. p \<in> set ps \<Longrightarrow> follows rest \<Longrightarrow> length (json_text (snd p)) < n \<Longrightarrow>
           parse_value n (json_text (snd p) @ rest) = Some (snd p, rest)"
    and "length (commas (map member_text ps)) + 1 < n"
  shows "parse_members n (commas (map member_text ps) @ CHR ''}'' # rest) = Some (ps, rest)"
  using assms
proof (induction ps arbitrary: n rule: list_nonempty_induct)
  case (single p)
  from single.prems(2) obtain m where n: "n = Suc m" by (cases n) auto
  have f: "follows (CHR ''}'' # rest)" by (simp add: follows_def)
  have "length (json_text (snd p)) < m" using single.prems(2) n by (simp add: member_text_def)
  from single.prems(1) [OF _ f this]
  have "parse_value m (json_text (snd p) @ CHR ''}'' # rest) = Some (snd p, CHR ''}'' # rest)" by simp
  moreover have "parse_chars (concat (map quote_char (fst p)) @ dquote # CHR '':'' # json_text (snd p)
               @ CHR ''}'' # rest)
           = Some (fst p, CHR '':'' # json_text (snd p) @ CHR ''}'' # rest)"
    by (rule parse_chars_quoted)
  ultimately show ?case
    by (simp add: n member_text_def QuoteJSONString_def skip_ws_def is_ws_def dquote_def)
next
  case (cons p ps)
  from cons.prems(2) obtain m where n: "n = Suc m" by (cases n) auto
  have t: "commas (member_text p # map member_text ps) = member_text p @ CHR '','' # commas (map member_text ps)"
    using cons.hyps by (simp add: commas_Cons)
  have l: "length (commas (member_text p # map member_text ps))
             = length (QuoteJSONString (fst p)) + 1 + length (json_text (snd p)) + 1
               + length (commas (map member_text ps))"
    unfolding t by (simp add: member_text_def)
  have f: "follows (CHR '','' # commas (map member_text ps) @ CHR ''}'' # rest)"
    by (simp add: follows_def)
  have "length (json_text (snd p)) < m" using cons.prems(2) n l by simp
  from cons.prems(1) [OF _ f this]
  have 1: "parse_value m (json_text (snd p) @ CHR '','' # commas (map member_text ps) @ CHR ''}'' # rest)
             = Some (snd p, CHR '','' # commas (map member_text ps) @ CHR ''}'' # rest)" by simp
  have "length (commas (map member_text ps)) + 1 < m" using cons.prems(2) n l by simp
  with cons.IH [of m] cons.prems(1)
  have 2: "parse_members m (commas (map member_text ps) @ CHR ''}'' # rest) = Some (ps, rest)"
    by simp
  have 0: "parse_chars (concat (map quote_char (fst p)) @ dquote # CHR '':'' # json_text (snd p)
               @ CHR '','' # commas (map member_text ps) @ CHR ''}'' # rest)
           = Some (fst p, CHR '':'' # json_text (snd p)
               @ CHR '','' # commas (map member_text ps) @ CHR ''}'' # rest)"
    by (rule parse_chars_quoted)
  have "parse_members (Suc m) (member_text p @ CHR '','' # commas (map member_text ps) @ CHR ''}'' # rest)
          = Some (p # ps, rest)"
    using 0 1 2
    by (simp add: member_text_def QuoteJSONString_def skip_ws_def is_ws_def dquote_def)
  then show ?case by (simp add: n t)
qed

lemma set_property_new: "k \<notin> fst ` set ps \<Longrightarrow> set_property k v ps = ps @ [(k, v)]"
  by (induction ps) auto

lemma fold_set_property:
  "distinct (map fst (acc @ ps)) \<Longrightarrow> fold (\<lambda>p. set_property (fst p) (snd p)) ps acc = acc @ ps"
proof (induction ps arbitrary: acc)
  case Nil
  then show ?case by simp
next
  case (Cons p ps)
  from Cons.prems have "fst p \<notin> fst ` set acc" by auto
  then have "set_property (fst p) (snd p) acc = acc @ [p]" by (simp add: set_property_new)
  moreover from Cons.prems have "distinct (map fst ((acc @ [p]) @ ps))" by simp
  ultimately show ?case using Cons.IH [of "acc @ [p]"] by simp
qed

lemma parse_value_text:
  "plain v \<Longrightarrow> follows rest \<Longrightarrow> length (json_text v) < n \<Longrightarrow>
   parse_value n (json_text v @ rest) = Some (v, rest)"
proof (induction v arbitrary: n rest)
  case JUndefined
  then show ?case by simp
next
  case JNull
  then obtain m where "n = Suc m" by (cases n) auto
  with parse_value_null [of m rest] show ?case
    by (simp add: json_text_simps del: parse_value.simps)
next
  case (JBool b)
  then obtain m where "n = Suc m" by (cases n) auto
  with parse_value_true [of m rest] parse_value_false [of m rest] show ?case
    by (cases b) (simp_all add: json_text_simps del: parse_value.simps)
next
  case (JNum i)
  then obtain m where "n = Suc m" by (cases n) auto
  with JNum.prems parse_value_number [of rest m i] show ?case
    by (simp add: json_text_simps del: parse_value.simps)
next
  case (JStr s)
  then obtain m where "n = Suc m" by (cases n) auto
  with parse_value_string [of m s rest] show ?case
    by (simp add: json_text_simps del: parse_value.simps)
next
  case (JDate d)
  then show ?case by simp
next
  case (JArr vs)
  from JArr.prems(3) obtain m where n: "n = Suc m" by (cases n) auto
  show ?case
  proof (cases "vs = []")
    case True
    then show ?thesis using parse_value_empty_array [of m rest]
      by (simp add: n json_text_simps del: parse_value.simps)
  next
    case False
    have pl: "\<And>v. v \<in> set vs \<Longrightarrow> plain v" using JArr.prems(1) by (simp add: list_all_iff)
    have ih: "\<And>v n rest. v \<in> set vs \<Longrightarrow> follows rest \<Longrightarrow> length (json_text v) < n \<Longrightarrow>
           parse_value n (json_text v @ rest) = Some (v, rest)"
      using JArr.IH pl by blast
    have len: "length (commas (map json_text vs)) + 1 < m"
      using JArr.prems(3) n by (simp add: json_text_simps)
    from commas_start [OF False, of json_text] pl plain_start
    obtain c cs where c: "commas (map json_text vs) = c # cs" "value_start c" by blast
    have "parse_elements m (commas (map json_text vs) @ CHR '']'' # rest) = Some (vs, rest)"
      by (rule parse_elements_text [OF False ih len])
    then show ?thesis
      using parse_value_array [OF c(2), of m "cs @ CHR '']'' # rest"] c(1)
      by (simp add: n json_text_simps del: parse_value.simps)
  qed
next
  case (JObj ps)
  from JObj.prems(3) obtain m where n: "n = Suc m" by (cases n) auto
  have pl: "list_all (\<lambda>p. plain (snd p)) ps" and di: "distinct (map fst ps)"
    using JObj.prems(1) by simp_all
  note otext = json_text_obj [OF pl]
  show ?case
  proof (cases "ps = []")
    case True
    then show ?thesis using parse_value_empty_object [of m rest] json_text_obj [of "[]"]
      by (simp add: n del: parse_value.simps)
  next
    case False
    have ih: "\<And>p n rest. p \<in> set ps \<Longrightarrow> follows rest \<Longrightarrow> length (json_text (snd p)) < n \<Longrightarrow>
           parse_value n (json_text (snd p) @ rest) = Some (snd p, rest)"
    proof -
      fix p n rest
      assume p: "p \<in> set ps" and f: "follows rest" and l: "length (json_text (snd p)) < n"
      from p pl have "plain (snd p)" by (simp add: list_all_iff)
      moreover have "snd p \<in> Basic_BNFs.snds p" by (cases p) simp
      ultimately show "parse_value n (json_text (snd p) @ rest) = Some (snd p, rest)"
        using JObj.IH [OF p _ _ f l] by blast
    qed
    have len: "length (commas (map member_text ps)) + 1 < m"
      using JObj.prems(3) n by (simp add: otext)
    have "\<And>p. p \<in> set ps \<Longrightarrow> \<exists>c cs. member_text p = c # cs \<and> value_start c"
      by (simp add: member_text_def QuoteJSONString_def value_start_def dquote_def is_ws_def)
    from commas_start [OF False, of member_text, OF this]
    obtain c cs where c: "commas (map member_text ps) = c # cs" "value_start c" by blast
    have "parse_members m (commas (map member_text ps) @ CHR ''}'' # rest) = Some (ps, rest)"
      by (rule parse_members_text [OF False ih len])
    then show ?thesis
      using parse_value_object [OF c(2), of m "cs @ CHR ''}'' # rest"] c(1)
        fold_set_property [of "[]" ps] di
      by (simp add: n otext del: parse_value.simps)
  qed
qed

lemma JSON_roundtrip:
  assumes "plain v" "JSON_stringify v = Some text"
  shows "JSON_parse text = Inr v"
proof -
  from assms have t: "text = json_text v"
    by (simp add: JSON_stringify_def serialize_plain)
  have "parse_value (Suc (length (json_text v))) (json_text v @ []) = Some (v, [])"
    by (rule parse_value_text [OF assms(1)]) (simp_all add: follows_def)
  then show ?thesis by (simp add: JSON_parse_def t skip_ws_def)
qed

section \<open>Properties of the persistence\<close>

lemma enrollment_properties_saved:
  "enrollment_properties e = saved_properties e (JDate (enrolledAt e))"
  by (simp add: enrollment_properties_def saved_properties_def)

lemma set_property_saved:
  "set_property ''enrolledAt'' v (saved_properties e stamp) = saved_properties e v"
  by (simp add: saved_properties_def)

lemma map_of_optional:
  "map_of (optional k f x) k' = (if k' = k then map_option f x else None)"
  by (cases x) (simp_all add: optional_def)

lemma keys_saved: "map fst (saved_properties e stamp) = map fst (saved_properties e JNull)"
  by (simp add: saved_properties_def)

lemma distinct_saved_null: "distinct (map fst (saved_properties e JNull))"
  by (simp add: saved_properties_def optional_def split: option.splits)

lemma distinct_saved: "distinct (map fst (saved_properties e stamp))"
  using distinct_saved_null [of e] keys_saved [of e stamp] by simp

lemma list_all_optional:
  "list_all Q (optional k f x) = (case x of None \<Rightarrow> True | Some a \<Rightarrow> Q (k, f a))"
  by (cases x) (simp_all add: optional_def)

lemma plain_saved:
  "plain stamp \<Longrightarrow> plain (JObj (saved_properties e stamp))"
  by (simp add: distinct_saved)
     (simp add: saved_properties_def list_all_optional campaign_object_def file_object_def
        stats_object_def split: option.splits)

lemma lookup_saved:
  "map_of (saved_properties e stamp) ''id'' = Some (JStr (enrollment_id e))"
  "map_of (saved_properties e stamp) ''campaign'' = Some (campaign_object (campaign e))"
  "map_of (saved_properties e stamp) ''status'' = Some (JStr (status e))"
  "map_of (saved_properties e stamp) ''enrolledAt'' = Some stamp"
  "map_of (saved_properties e stamp) ''clicks'' = map_option JNum (clicks e)"
  "map_of (saved_properties e stamp) ''orders'' = map_option JNum (orders e)"
  "map_of (saved_properties e stamp) ''earnings'' = map_option JNum (earnings e)"
  "map_of (saved_properties e stamp) ''uploadedFile'' = map_option file_object (uploadedFile e)"
  "map_of (saved_properties e stamp) ''referralUrl'' = map_option JStr (referralUrl e)"
  "map_of (saved_properties e stamp) ''stats'' = map_option stats_object (stats e)"
  "map_of (saved_properties e stamp) ''rejectionReason'' = map_option JStr (rejectionReason e)"
  by (simp_all add: saved_properties_def map_add_def map_of_optional split: option.splits)

lemma as_campaign_object: "as_campaign (campaign_object c) = Some c"
  by (simp add: as_campaign_def campaign_object_def string_property_def)

lemma as_file_object: "as_file (file_object f) = Some f"
  by (simp add: as_file_def file_object_def string_property_def number_property_def)

lemma as_stats_object: "as_stats (stats_object s) = Some s"
  by (simp add: as_stats_def stats_object_def number_property_def)

lemma as_enrollment_object: "as_enrollment (enrollment_object e) = Some e"
proof -
  let ?ps = "saved_properties e (JDate (enrolledAt e))"
  have 1: "string_property ?ps ''id'' = Some (enrollment_id e)"
    "string_property ?ps ''status'' = Some (status e)"
    by (simp_all add: string_property_def lookup_saved)
  have 2: "Option.bind (map_of ?ps ''campaign'') as_campaign = Some (campaign e)"
    by (simp add: lookup_saved as_campaign_object)
  have 3: "Option.bind (map_of ?ps ''uploadedFile'') as_file = uploadedFile e"
    by (cases "uploadedFile e") (simp_all add: lookup_saved as_file_object)
  have 4: "Option.bind (map_of ?ps ''stats'') as_stats = stats e"
    by (cases "stats e") (simp_all add: lookup_saved as_stats_object)
  have 5: "string_property ?ps ''referralUrl'' = referralUrl e"
    by (cases "referralUrl e") (simp_all add: string_property_def lookup_saved)
  have 6: "string_property ?ps ''rejectionReason'' = rejectionReason e"
    by (cases "rejectionReason e") (simp_all add: string_property_def lookup_saved)
  have 7: "number_property ?ps ''clicks'' = clicks e"
    by (cases "clicks e") (simp_all add: number_property_def lookup_saved)
  have 8: "number_property ?ps ''orders'' = orders e"
    by (cases "orders e") (simp_all add: number_property_def lookup_saved)
  have 9: "number_property ?ps ''earnings'' = earnings e"
    by (cases "earnings e") (simp_all add: number_property_def lookup_saved)
  show ?thesis
    unfolding as_enrollment_def enrollment_object_def enrollment_properties_saved
    by (simp add: 1 2 3 4 5 6 7 8 9 lookup_saved(4))
qed

lemma map_throwing_all:
  "(\<And>x. x \<in> set xs \<Longrightarrow> f x = Inr (g x)) \<Longrightarrow> map_throwing f xs = Inr (map g xs)"
  by (induction xs) simp_all

lemma valid_date_iso:
  assumes "valid_date (enrolledAt e)"
  obtains t where "enrolledAt e = ValidDate t" "\<bar>t\<bar> \<le> 8640000000000000"
    "toISOString (enrolledAt e) = Inr (iso_of e)" "parse_iso (iso_of e) = Some t"
proof -
  from assms obtain t where t: "enrolledAt e = ValidDate t" "\<bar>t\<bar> \<le> 8640000000000000"
    by (cases "enrolledAt e") (simp_all add: valid_date_def)
  from iso_roundtrip [OF t(2)] obtain s where s: "toISOString (ValidDate t) = Inr s" "parse_iso s = Some t"
    by blast
  then have "iso_of e = s" by (simp add: iso_of_def t(1))
  with t s that show ?thesis by simp
qed

lemma save_objects:
  assumes "\<forall>e\<in>set es. valid_date (enrolledAt e)"
  shows "map_throwing with_iso_string es
         = Inr (map (\<lambda>e. JObj (saved_properties e (JStr (iso_of e)))) es)"
proof (rule map_throwing_all)
  fix e assume "e \<in> set es"
  with assms have "valid_date (enrolledAt e)" by simp
  then obtain t :: int where "toISOString (enrolledAt e) = Inr (iso_of e)" by (rule valid_date_iso)
  then show "with_iso_string e = Inr (JObj (saved_properties e (JStr (iso_of e))))"
    by (simp add: with_iso_string_def enrollment_properties_saved set_property_saved)
qed

lemma load_objects:
  assumes "\<forall>e\<in>set es. valid_date (enrolledAt e)"
  shows "map_throwing (with_date engine)
           (map (\<lambda>e. JObj (saved_properties e (JStr (iso_of e)))) es)
         = Inr (map enrollment_object es)"
  using assms
proof (induction es)
  case Nil
  then show ?case by simp
next
  case (Cons e es)
  then have "valid_date (enrolledAt e)" by simp
  then obtain t where t: "enrolledAt e = ValidDate t" "\<bar>t\<bar> \<le> 8640000000000000"
    "parse_iso (iso_of e) = Some t" by (rule valid_date_iso)
  have g: "get_enrolledAt (JObj (saved_properties e (JStr (iso_of e)))) = Inr (JStr (iso_of e))"
    by (simp add: get_enrolledAt_def lookup_saved)
  have d: "new_Date engine (JStr (iso_of e)) = enrolledAt e"
    using t by (simp add: new_Date_def TimeClip_def)
  have "with_date engine (JObj (saved_properties e (JStr (iso_of e)))) = Inr (enrollment_object e)"
    by (simp add: with_date_def g d own_properties_def set_property_saved enrollment_object_def
          enrollment_properties_saved)
  with Cons show ?case by simp
qed

lemma saved_text:
  assumes "\<forall>e\<in>set es. valid_date (enrolledAt e)"
  shows "JSON_stringify (JArr (map (\<lambda>e. JObj (saved_properties e (JStr (iso_of e)))) es))
           = Some (json_text (JArr (map (\<lambda>e. JObj (saved_properties e (JStr (iso_of e)))) es)))"
    and "JSON_parse (json_text (JArr (map (\<lambda>e. JObj (saved_properties e (JStr (iso_of e)))) es)))
           = Inr (JArr (map (\<lambda>e. JObj (saved_properties e (JStr (iso_of e)))) es))"
    and "json_text (JArr (map (\<lambda>e. JObj (saved_properties e (JStr (iso_of e)))) es)) \<noteq> []"
proof -
  let ?v = "JArr (map (\<lambda>e. JObj (saved_properties e (JStr (iso_of e)))) es)"
  have p: "plain ?v"
    using plain_saved by (simp add: list_all_iff del: plain.simps(8))
  then show s: "JSON_stringify ?v = Some (json_text ?v)"
    by (simp add: JSON_stringify_def serialize_plain del: plain.simps SerializeJSONProperty.simps)
  from JSON_roundtrip [OF p s] show "JSON_parse (json_text ?v) = Inr ?v" .
  show "json_text ?v \<noteq> []" by (simp add: json_text_simps)
qed

lemma save_attempt_valid:
  assumes "\<forall>e\<in>set es. valid_date (enrolledAt e)"
  shows "save_attempt es st =
           setItem st ENROLLMENTS_STORAGE_KEY
             (json_text (JArr (map (\<lambda>e. JObj (saved_properties e (JStr (iso_of e)))) es)))"
  by (simp add: save_attempt_def save_objects [OF assms] saved_text(1) [OF assms])

lemma save_then_load_objects:
  assumes v: "\<forall>e\<in>set es. valid_date (enrolledAt e)" and w: "write_accepted es b"
  shows "fst (loadEnrollmentsFromStorage engine (saveEnrollmentsToStorage es b)) = map enrollment_object es"
    and "\<forall>k. k \<noteq> ENROLLMENTS_STORAGE_KEY \<longrightarrow>
            items (storage (saveEnrollmentsToStorage es b)) k = items (storage b) k"
proof -
  let ?text = "json_text (JArr (map (\<lambda>e. JObj (saved_properties e (JStr (iso_of e)))) es))"
  from w obtain st where st: "save_attempt es (storage b) = Inr st"
    by (auto simp: write_accepted_def split: sum.splits)
  with save_attempt_valid [OF v, of "storage b"]
  have set: "setItem (storage b) ENROLLMENTS_STORAGE_KEY ?text = Inr st" by simp
  then have st_eq: "st = (storage b)\<lparr>items := (items (storage b))(ENROLLMENTS_STORAGE_KEY \<mapsto> ?text)\<rparr>"
    and ok: "\<not> access_denied (storage b)"
    by (auto simp: setItem_def split: if_splits)
  have sv: "saveEnrollmentsToStorage es b = b\<lparr>storage := st\<rparr>"
    by (simp add: saveEnrollmentsToStorage_def st)
  have get: "getItem st ENROLLMENTS_STORAGE_KEY = Inr (Some ?text)"
    using ok by (simp add: getItem_def st_eq)
  have "load_attempt engine st = Inr (map enrollment_object es)"
    unfolding load_attempt_def get
    using saved_text(2,3) [OF v] load_objects [OF v, of engine]
    by simp
  then show "fst (loadEnrollmentsFromStorage engine (saveEnrollmentsToStorage es b)) = map enrollment_object es"
    by (simp add: loadEnrollmentsFromStorage_def sv)
  show "\<forall>k. k \<noteq> ENROLLMENTS_STORAGE_KEY \<longrightarrow>
            items (storage (saveEnrollmentsToStorage es b)) k = items (storage b) k"
    by (simp add: sv st_eq)
qed

text \<open>
  Claim C3, as amended. For enrollments whose \<open>enrolledAt\<close> is a valid date, when the
  save does not throw (the store accepts the write), loading after saving gives the
  objects of the same enrollments in the same order, which read back as the original
  records; the save changes no item of the store other than the one under
  \<open>snoonu-collaborators-enrollments\<close>.
\<close>

theorem save_then_load:
  assumes "\<forall>e\<in>set es. valid_date (enrolledAt e)" and "write_accepted es b"
  shows "map as_enrollment (fst (loadEnrollmentsFromStorage engine (saveEnrollmentsToStorage es b)))
           = map Some es
       \<and> (\<forall>k. k \<noteq> ENROLLMENTS_STORAGE_KEY \<longrightarrow>
            items (storage (saveEnrollmentsToStorage es b)) k = items (storage b) k)
       \<and> ENROLLMENTS_STORAGE_KEY = ''snoonu-collaborators-enrollments''"
  using save_then_load_objects(1) [OF assms, of engine] save_then_load_objects(2) [OF assms]
  by (simp add: as_enrollment_object comp_def ENROLLMENTS_STORAGE_KEY_def)

lemma sample_text_length:
  "length (json_text (JArr (map (\<lambda>e. JObj (saved_properties e (JStr (iso_of e))))
      [sample_enrollment ''e1'' ''approved'' 1700000000000]))) < 1000"
  by code_simp

lemma sample_valid: "valid_date (enrolledAt (sample_enrollment ''e1'' ''approved'' 1700000000000))"
  by (simp add: valid_date_def sample_enrollment_def)

lemma sample_accepted:
  "write_accepted [sample_enrollment ''e1'' ''approved'' 1700000000000] sample_browser"
proof -
  have "save_attempt [sample_enrollment ''e1'' ''approved'' 1700000000000] (storage sample_browser)
      = setItem (storage sample_browser) ENROLLMENTS_STORAGE_KEY
             (json_text (JArr (map (\<lambda>e. JObj (saved_properties e (JStr (iso_of e))))
                [sample_enrollment ''e1'' ''approved'' 1700000000000])))"
    by (rule save_attempt_valid) (simp add: sample_valid)
  then show ?thesis
    using sample_text_length
    by (simp add: write_accepted_def setItem_def sample_browser_def ENROLLMENTS_STORAGE_KEY_def)
qed

theorem save_then_load_witness:
  "valid_date (enrolledAt (sample_enrollment ''e1'' ''approved'' 1700000000000))
   \<and> write_accepted [sample_enrollment ''e1'' ''approved'' 1700000000000] sample_browser
   \<and> map as_enrollment (fst (loadEnrollmentsFromStorage (\<lambda>v. InvalidDate)
         (saveEnrollmentsToStorage [sample_enrollment ''e1'' ''approved'' 1700000000000] sample_browser)))
       = [Some (sample_enrollment ''e1'' ''approved'' 1700000000000)]"
  using save_then_load [of "[sample_enrollment ''e1'' ''approved'' 1700000000000]" sample_browser
          "\<lambda>v. InvalidDate"] sample_valid sample_accepted
  by simp

lemma full_store_refuses:
  assumes "capacity st = 0" "\<not> access_denied st"
  shows "setItem st ENROLLMENTS_STORAGE_KEY v = Inl QuotaExceededError"
  using assms by (simp add: setItem_def ENROLLMENTS_STORAGE_KEY_def)

lemma save_attempt_full:
  assumes "capacity st = 0" "\<not> access_denied st"
  shows "\<exists>err. save_attempt es st = Inl err"
  by (cases "map_throwing with_iso_string es")
     (simp_all add: save_attempt_def full_store_refuses [OF assms])

text \<open>
  Claim C3 as stated fails: a store with no room left refuses the write, the save
  logs and returns, and loading then gives the empty list for a non-empty one.
\<close>

theorem refused_write_loses_enrollments:
  "fst (loadEnrollmentsFromStorage (\<lambda>v. InvalidDate)
         (saveEnrollmentsToStorage [sample_enrollment ''e1'' ''enrolled'' 0] full_browser)) = []"
proof -
  obtain err where "save_attempt [sample_enrollment ''e1'' ''enrolled'' 0] (storage full_browser) = Inl err"
    using save_attempt_full [of "storage full_browser"] by (auto simp: full_browser_def)
  then have "storage (saveEnrollmentsToStorage [sample_enrollment ''e1'' ''enrolled'' 0] full_browser)
               = storage full_browser"
    by (simp add: saveEnrollmentsToStorage_def)
  then show ?thesis
    by (simp add: loadEnrollmentsFromStorage_def load_attempt_def getItem_def full_browser_def)
qed

text \<open>
  Claim C5. \<open>loadEnrollmentsFromStorage\<close> returns the empty list when the key is
  absent and when the stored text fails to parse, and whatever is thrown inside its
  \<open>try\<close> block it returns the empty list and prints one line.
  \<open>saveEnrollmentsToStorage\<close> returns with the store as it was and one line printed
  whatever is thrown inside its \<open>try\<close> block, in particular when the store denies
  access or has no room for the item.
\<close>

theorem storage_failures_degrade:
  "(items (storage b) ENROLLMENTS_STORAGE_KEY = None
      \<longrightarrow> fst (loadEnrollmentsFromStorage engine b) = [])
   \<and> (items (storage b) ENROLLMENTS_STORAGE_KEY = Some text \<and> JSON_parse text = Inl err
      \<longrightarrow> fst (loadEnrollmentsFromStorage engine b) = [])
   \<and> (load_attempt engine (storage b) = Inl err
      \<longrightarrow> loadEnrollmentsFromStorage engine b = ([], b\<lparr>printed := printed b @ [load_failure_line]\<rparr>))
   \<and> storage (snd (loadEnrollmentsFromStorage engine b)) = storage b
   \<and> (save_attempt es (storage b) = Inl err
      \<longrightarrow> saveEnrollmentsToStorage es b = b\<lparr>printed := printed b @ [save_failure_line]\<rparr>)
   \<and> (access_denied (storage b) \<or> capacity (storage b) < length ENROLLMENTS_STORAGE_KEY
      \<longrightarrow> saveEnrollmentsToStorage es b = b\<lparr>printed := printed b @ [save_failure_line]\<rparr>)"
proof -
  have a: "items (storage b) ENROLLMENTS_STORAGE_KEY = None
      \<longrightarrow> fst (loadEnrollmentsFromStorage engine b) = []"
    by (auto simp: loadEnrollmentsFromStorage_def load_attempt_def getItem_def split: sum.splits)
  have b: "items (storage b) ENROLLMENTS_STORAGE_KEY = Some text \<and> JSON_parse text = Inl err
      \<longrightarrow> fst (loadEnrollmentsFromStorage engine b) = []"
    by (auto simp: loadEnrollmentsFromStorage_def load_attempt_def getItem_def split: sum.splits)
  have c: "load_attempt engine (storage b) = Inl err
      \<longrightarrow> loadEnrollmentsFromStorage engine b = ([], b\<lparr>printed := printed b @ [load_failure_line]\<rparr>)"
    by (simp add: loadEnrollmentsFromStorage_def load_failure_line_def)
  have k: "storage (snd (loadEnrollmentsFromStorage engine b)) = storage b"
    by (simp add: loadEnrollmentsFromStorage_def split: sum.splits)
  have d: "save_attempt es (storage b) = Inl err
      \<longrightarrow> saveEnrollmentsToStorage es b = b\<lparr>printed := printed b @ [save_failure_line]\<rparr>"
    by (simp add: saveEnrollmentsToStorage_def save_failure_line_def)
  have e: "access_denied (storage b) \<or> capacity (storage b) < length ENROLLMENTS_STORAGE_KEY
      \<longrightarrow> saveEnrollmentsToStorage es b = b\<lparr>printed := printed b @ [save_failure_line]\<rparr>"
  proof
    assume h: "access_denied (storage b) \<or> capacity (storage b) < length ENROLLMENTS_STORAGE_KEY"
    then have "\<And>v. \<exists>x. setItem (storage b) ENROLLMENTS_STORAGE_KEY v = Inl x"
      by (auto simp: setItem_def)
    then have "\<exists>x. save_attempt es (storage b) = Inl x"
      by (cases "map_throwing with_iso_string es") (simp_all add: save_attempt_def)
    then show "saveEnrollmentsToStorage es b = b\<lparr>printed := printed b @ [save_failure_line]\<rparr>"
      by (auto simp: saveEnrollmentsToStorage_def save_failure_line_def)
  qed
  from a b c k d e show ?thesis by blast
qed

theorem storage_failures_degrade_witness:
  "items (storage broken_browser) ENROLLMENTS_STORAGE_KEY = Some ''[{oops''
   \<and> JSON_parse ''[{oops'' = Inl SyntaxError
   \<and> fst (loadEnrollmentsFromStorage (\<lambda>v. InvalidDate) broken_browser) = []
   \<and> saveEnrollmentsToStorage [sample_enrollment ''e1'' ''enrolled'' 0] broken_browser
       = broken_browser\<lparr>printed := [save_failure_line]\<rparr>"
proof -
  have p: "JSON_parse ''[{oops'' = Inl SyntaxError" by code_simp
  have i: "items (storage broken_browser) ENROLLMENTS_STORAGE_KEY = Some ''[{oops''"
    by (simp add: broken_browser_def)
  have c: "capacity (storage broken_browser) < length ENROLLMENTS_STORAGE_KEY"
    by (simp add: broken_browser_def ENROLLMENTS_STORAGE_KEY_def)
  have e: "printed broken_browser = []" by (simp add: broken_browser_def)
  from storage_failures_degrade
         [of broken_browser "\<lambda>v. InvalidDate" "''[{oops''" SyntaxError
             "[sample_enrollment ''e1'' ''enrolled'' 0]"] p i c e
  show ?thesis by simp
qed

end
